theory Spec2Isabelle
  imports Complex_Main "HOL-Library.AList"
begin

section \<open>Strings\<close>

text \<open>
  A JavaScript string is modelled as a \<^typ>\<open>string\<close>, one \<^typ>\<open>char\<close> per code unit.
  The patterns and literals of \<^verbatim>\<open>runner.js\<close> and \<^verbatim>\<open>blocklist.js\<close> are ASCII, and
  a code unit outside ASCII never folds to an ASCII letter, so case folding is
  written out on the 26 letters.
\<close>

definition backslash :: char where
  "backslash = CHR 0x5C"

definition squote :: char where
  "squote = CHR 0x27"

definition dquote :: char where
  "dquote = CHR 0x22"

definition upperAZ :: string where
  "upperAZ = ''ABCDEFGHIJKLMNOPQRSTUVWXYZ''"

definition lowerAZ :: string where
  "lowerAZ = ''abcdefghijklmnopqrstuvwxyz''"

definition digits09 :: string where
  "digits09 = ''0123456789''"

definition isUpper :: "char \<Rightarrow> bool" where
  "isUpper c = (c \<in> set upperAZ)"

definition isLower :: "char \<Rightarrow> bool" where
  "isLower c = (c \<in> set lowerAZ)"

definition isLetter :: "char \<Rightarrow> bool" where
  "isLetter c = (isUpper c \<or> isLower c)"

definition toLowerChar :: "char \<Rightarrow> char" where
  "toLowerChar c = (case map_of (zip upperAZ lowerAZ) c of Some l \<Rightarrow> l | None \<Rightarrow> c)"

definition toLowerCase :: "string \<Rightarrow> string" where
  "toLowerCase s = map toLowerChar s"

text \<open>\<^verbatim>\<open>s.startsWith(p)\<close> and \<^verbatim>\<open>s.includes(p)\<close>.\<close>

fun startsWith :: "string \<Rightarrow> string \<Rightarrow> bool" where
  "startsWith s [] = True"
| "startsWith [] (p # ps) = False"
| "startsWith (c # cs) (p # ps) = (c = p \<and> startsWith cs ps)"

fun includesStr :: "string \<Rightarrow> string \<Rightarrow> bool" where
  "includesStr [] p = (p = [])"
| "includesStr (c # cs) p = (startsWith (c # cs) p \<or> includesStr cs p)"


section \<open>Path Translator\<close>

text \<open>
  \<^verbatim>\<open>windowsToPosix\<close> chains three replacements:
  \<^verbatim>\<open>.replace(/\\/g, '/')\<close>, then \<^verbatim>\<open>.replace(/^([A-Z]):/i, '/$1')\<close>, then
  \<^verbatim>\<open>.replace(/^\/[A-Z]/i, match => match.toLowerCase())\<close>.
\<close>

definition replaceBackslashes :: "string \<Rightarrow> string" where
  "replaceBackslashes s = map (\<lambda>c. if c = backslash then CHR ''/'' else c) s"

definition replaceDrive :: "string \<Rightarrow> string" where
  "replaceDrive s =
     (case s of
        c # d # rest \<Rightarrow> if isLetter c \<and> d = CHR '':'' then CHR ''/'' # c # rest else s
      | _ \<Rightarrow> s)"

definition lowerRoot :: "string \<Rightarrow> string" where
  "lowerRoot s =
     (case s of
        a # c # rest \<Rightarrow> if a = CHR ''/'' \<and> isLetter c then a # toLowerChar c # rest else s
      | _ \<Rightarrow> s)"

definition windowsToPosix :: "string \<Rightarrow> string" where
  "windowsToPosix windowsPath = lowerRoot (replaceDrive (replaceBackslashes windowsPath))"

text \<open>The inputs the translator leaves alone: no backslash, no drive prefix, and no
  upper-case letter right after a leading slash.\<close>

definition hasDrivePrefix :: "string \<Rightarrow> bool" where
  "hasDrivePrefix s = (case s of c # d # rest \<Rightarrow> isLetter c \<and> d = CHR '':'' | _ \<Rightarrow> False)"

definition hasUpperRoot :: "string \<Rightarrow> bool" where
  "hasUpperRoot s = (case s of a # c # rest \<Rightarrow> a = CHR ''/'' \<and> isUpper c | _ \<Rightarrow> False)"

definition posixStable :: "string \<Rightarrow> bool" where
  "posixStable s = (backslash \<notin> set s \<and> \<not> hasDrivePrefix s \<and> \<not> hasUpperRoot s)"


section \<open>Facts about the string helpers\<close>

lemma toLowerChar_fixed: "\<not> isUpper c \<Longrightarrow> toLowerChar c = c"
  unfolding toLowerChar_def isUpper_def
  by (auto split: option.splits dest: map_of_SomeD set_zip_leftD)

lemma toLowerChar_not_upper: "\<not> isUpper (toLowerChar c)"
proof (cases "isUpper c")
  case True
  then show ?thesis
    unfolding isUpper_def toLowerChar_def upperAZ_def lowerAZ_def by auto
next
  case False
  then show ?thesis by (simp add: toLowerChar_fixed)
qed

lemma toLowerChar_idem: "toLowerChar (toLowerChar c) = toLowerChar c"
  by (simp add: toLowerChar_fixed toLowerChar_not_upper)

lemma toLowerChar_letter: "isLetter c \<Longrightarrow> isLetter (toLowerChar c)"
proof (cases "isUpper c")
  case True
  then show ?thesis
    unfolding isLetter_def isUpper_def isLower_def toLowerChar_def upperAZ_def lowerAZ_def
    by auto
next
  case False
  assume "isLetter c"
  with False show ?thesis by (simp add: toLowerChar_fixed)
qed

lemma slash_not_letter: "\<not> isLetter (CHR ''/'')"
  by (simp add: isLetter_def isUpper_def isLower_def upperAZ_def lowerAZ_def)

lemma slash_not_backslash: "CHR ''/'' \<noteq> backslash" "backslash \<noteq> CHR ''/''"
  by (simp_all add: backslash_def)

lemma replaceBackslashes_free: "backslash \<notin> set (replaceBackslashes s)"
  by (auto simp: replaceBackslashes_def slash_not_backslash)

lemma replaceBackslashes_id: "backslash \<notin> set s \<Longrightarrow> replaceBackslashes s = s"
  by (induction s) (auto simp: replaceBackslashes_def)

lemma replaceBackslashes_append:
  "replaceBackslashes (a @ b) = replaceBackslashes a @ replaceBackslashes b"
  by (simp add: replaceBackslashes_def)

lemma replaceBackslashes_Cons:
  "replaceBackslashes (c # s) = (if c = backslash then CHR ''/'' else c) # replaceBackslashes s"
  by (simp add: replaceBackslashes_def)

lemma replaceDrive_id: "\<not> hasDrivePrefix s \<Longrightarrow> replaceDrive s = s"
  by (auto simp: replaceDrive_def hasDrivePrefix_def split: list.splits)

lemma lowerRoot_id: "\<not> hasUpperRoot s \<Longrightarrow> lowerRoot s = s"
  by (auto simp: lowerRoot_def hasUpperRoot_def toLowerChar_fixed split: list.splits)

lemma lowerRoot_no_upper: "\<not> hasUpperRoot (lowerRoot s)"
  by (auto simp: lowerRoot_def hasUpperRoot_def toLowerChar_not_upper isLetter_def
      split: list.splits)

lemma letter_not_backslash: "isLetter c \<Longrightarrow> c \<noteq> backslash"
  by (auto simp: isLetter_def isUpper_def isLower_def upperAZ_def lowerAZ_def backslash_def)

lemma lowerRoot_backslash: "backslash \<notin> set s \<Longrightarrow> backslash \<notin> set (lowerRoot s)"
proof -
  have "isLetter c \<Longrightarrow> backslash \<noteq> toLowerChar c" for c
    using letter_not_backslash [OF toLowerChar_letter, of c] by auto
  then show "backslash \<notin> set s \<Longrightarrow> backslash \<notin> set (lowerRoot s)"
    by (auto simp: lowerRoot_def split: list.splits if_splits)
qed

lemma replaceDrive_backslash: "backslash \<notin> set s \<Longrightarrow> backslash \<notin> set (replaceDrive s)"
  by (auto simp: replaceDrive_def slash_not_backslash split: list.splits if_splits)

lemma replaceDrive_no_drive: "\<not> hasDrivePrefix (replaceDrive s)"
  by (auto simp: replaceDrive_def hasDrivePrefix_def slash_not_letter split: list.splits)

lemma lowerRoot_no_drive: "\<not> hasDrivePrefix s \<Longrightarrow> \<not> hasDrivePrefix (lowerRoot s)"
  by (auto simp: lowerRoot_def hasDrivePrefix_def slash_not_letter split: list.splits if_splits)

lemma windowsToPosix_stable: "posixStable (windowsToPosix s)"
  unfolding posixStable_def windowsToPosix_def
  by (simp add: lowerRoot_no_upper lowerRoot_no_drive replaceDrive_no_drive
      lowerRoot_backslash replaceDrive_backslash replaceBackslashes_free)

lemma windowsToPosix_fixed: "posixStable s \<Longrightarrow> windowsToPosix s = s"
  unfolding posixStable_def windowsToPosix_def
  by (simp add: replaceBackslashes_id replaceDrive_id lowerRoot_id)

lemma windowsToPosix_drive:
  "isLetter l \<Longrightarrow>
   windowsToPosix (l # CHR '':'' # rest) = CHR ''/'' # toLowerChar l # replaceBackslashes rest"
proof -
  assume l: "isLetter l"
  then have nb: "l \<noteq> backslash"
    by (rule letter_not_backslash)
  have "CHR '':'' \<noteq> backslash" by (simp add: backslash_def)
  with l nb show ?thesis
    by (simp add: windowsToPosix_def replaceBackslashes_Cons replaceDrive_def lowerRoot_def)
qed


section \<open>Path Translator: results\<close>

text \<open>
  C6 (the code differs): the already-POSIX path \<^verbatim>\<open>/Users/johan\<close> is not returned as
  it is. The third replacement, there to lower-case the drive letter, also lower-cases
  the first letter of a path that never had a drive prefix.
\<close>

theorem C6_posix_input_changed:
  "windowsToPosix ''/Users/johan'' = ''/users/johan'' \<and>
   windowsToPosix ''/Users/johan'' \<noteq> ''/Users/johan''"
  by (simp add: windowsToPosix_def replaceBackslashes_def replaceDrive_def lowerRoot_def
      backslash_def isLetter_def isUpper_def isLower_def upperAZ_def lowerAZ_def toLowerChar_def)

text \<open>
  What the translator does otherwise: a native path \<^verbatim>\<open><Letter>:\a\b\<close> (\<open>a\<close> and \<open>b\<close>
  free of backslashes) becomes \<^verbatim>\<open>/<lowercase-letter>/a/b\<close>; an input with no backslash,
  no drive prefix and no upper-case letter right after a leading slash comes back as it
  is; and the translator is idempotent.
\<close>

lemma windowsToPosix_behaviour:
  "(isLetter l \<and> backslash \<notin> set a \<and> backslash \<notin> set b \<longrightarrow>
      windowsToPosix (l # CHR '':'' # backslash # a @ backslash # b)
        = CHR ''/'' # toLowerChar l # CHR ''/'' # a @ CHR ''/'' # b) \<and>
   (posixStable s \<longrightarrow> windowsToPosix s = s) \<and>
   windowsToPosix (windowsToPosix t) = windowsToPosix t"
proof (intro conjI impI)
  assume h: "isLetter l \<and> backslash \<notin> set a \<and> backslash \<notin> set b"
  then show "windowsToPosix (l # CHR '':'' # backslash # a @ backslash # b)
      = CHR ''/'' # toLowerChar l # CHR ''/'' # a @ CHR ''/'' # b"
    by (simp add: windowsToPosix_drive replaceBackslashes_Cons replaceBackslashes_append
        replaceBackslashes_id)
next
  assume "posixStable s"
  then show "windowsToPosix s = s" by (rule windowsToPosix_fixed)
next
  show "windowsToPosix (windowsToPosix t) = windowsToPosix t"
    by (rule windowsToPosix_fixed) (rule windowsToPosix_stable)
qed

lemma windowsToPosix_behaviour_example:
  "(isLetter (CHR ''C'') \<and> backslash \<notin> set ''Users'' \<and> backslash \<notin> set ''johan'') \<and>
   windowsToPosix (CHR ''C'' # CHR '':'' # backslash # ''Users'' @ backslash # ''johan'')
     = ''/c/Users/johan'' \<and>
   posixStable ''/c/Users/johan'' \<and>
   windowsToPosix ''/c/Users/johan'' = ''/c/Users/johan''"
  using windowsToPosix_behaviour [of "CHR ''C''" "''Users''" "''johan''" "''/c/Users/johan''"]
  by (simp add: posixStable_def hasDrivePrefix_def hasUpperRoot_def backslash_def
      isLetter_def isUpper_def isLower_def upperAZ_def lowerAZ_def toLowerChar_def)

section \<open>Backoff Calculator and Network Error Classifier\<close>

record config =
  MAX_CRASH_RESTARTS :: nat
  CRASH_WINDOW_MS :: int
  MAX_NETWORK_RETRIES :: nat
  NETWORK_CHECK_HOST :: string
  NETWORK_BACKOFF_BASE_MS :: rat
  NETWORK_BACKOFF_MAX_MS :: rat

definition CONFIG :: config where
  "CONFIG = \<lparr> MAX_CRASH_RESTARTS = 3, CRASH_WINDOW_MS = 60000, MAX_NETWORK_RETRIES = 10,
      NETWORK_CHECK_HOST = ''api.anthropic.com'', NETWORK_BACKOFF_BASE_MS = 5000,
      NETWORK_BACKOFF_MAX_MS = 60000 \<rparr>"

text \<open>\<^verbatim>\<open>Math.min(baseMs * Math.pow(2, attempt - 1), maxMs)\<close>, on exact numbers.\<close>

definition calculateBackoff :: "int \<Rightarrow> rat \<Rightarrow> rat \<Rightarrow> rat" where
  "calculateBackoff attempt baseMs maxMs = min (baseMs * 2 powi (attempt - 1)) maxMs"

text \<open>
  A thrown value: \<open>None\<close> is \<^verbatim>\<open>null\<close> or \<^verbatim>\<open>undefined\<close>; otherwise only its
  \<^verbatim>\<open>code\<close> and \<^verbatim>\<open>message\<close> properties are read, each \<open>None\<close> when it is absent.
\<close>

record js_error =
  err_code :: "string option"
  err_message :: "string option"

definition networkErrorCodes :: "string list" where
  "networkErrorCodes = [''ENOTFOUND'', ''ETIMEDOUT'', ''ECONNREFUSED'', ''ECONNRESET'',
     ''ENETUNREACH'', ''EAI_AGAIN'', ''EHOSTUNREACH'', ''EPIPE'']"

definition networkErrorMessages :: "string list" where
  "networkErrorMessages = [''network'', ''fetch failed'', ''socket hang up'', ''ENOTFOUND'',
     ''ETIMEDOUT'', ''getaddrinfo'', ''connect ECONNREFUSED'']"

definition isNetworkError :: "js_error option \<Rightarrow> bool" where
  "isNetworkError err =
     (case err of
        None \<Rightarrow> False
      | Some e \<Rightarrow>
          (case err_code e of Some c \<Rightarrow> c \<noteq> [] \<and> c \<in> set networkErrorCodes | None \<Rightarrow> False) \<or>
          (let message = toLowerCase (case err_message e of Some m \<Rightarrow> m | None \<Rightarrow> [])
           in list_ex (\<lambda>pattern. includesStr message (toLowerCase pattern)) networkErrorMessages))"


section \<open>Supervisor\<close>

record restart_state =
  crashRestartCount :: nat
  lastCrashTime :: int
  networkRetryCount :: nat

definition initialState :: restart_state where
  "initialState = \<lparr> crashRestartCount = 0, lastCrashTime = 0, networkRetryCount = 0 \<rparr>"

text \<open>What the Supervisor does that can be seen from outside, in order.\<close>

datatype event =
    Import
  | WarnNetworkError "string option"
  | WarnNoInternet nat nat rat
  | Sleep rat
  | CheckConnectivity
  | LogConnectionRestored
  | ErrorNoInternet nat
  | ErrorCrashed nat int
  | ErrorMessage "string option"
  | WarnCrashed nat nat

datatype run_result = Returns | Throws "js_error option"

datatype outcome = NormalReturn | ProcessExit nat | TypeErrorThrown

datatype step = Restart | Stop outcome

text \<open>
  The world around the Supervisor: what the \<open>k\<close>-th import of the entry point does, what
  \<^verbatim>\<open>Date.now()\<close> reads in the \<open>k\<close>-th catch, and whether the \<open>n\<close>-th name lookup of
  the wait after the \<open>k\<close>-th failure succeeds.
\<close>

record environment =
  entry :: "nat \<Rightarrow> run_result"
  dateNow :: "nat \<Rightarrow> int"
  dnsLookup :: "nat \<Rightarrow> nat \<Rightarrow> bool"

text \<open>
  The \<^verbatim>\<open>while\<close> loop of \<^verbatim>\<open>waitForConnectivity\<close>: one more retry, the backoff wait, one
  name lookup. It ends because the retry counter only grows towards the ceiling.
\<close>

function waitLoop ::
  "config \<Rightarrow> (nat \<Rightarrow> bool) \<Rightarrow> restart_state \<Rightarrow> event list \<Rightarrow> bool \<times> restart_state \<times> event list"
where
  "waitLoop cfg lookup st tr =
     (if networkRetryCount st < MAX_NETWORK_RETRIES cfg then
        (let n = networkRetryCount st + 1;
             st1 = st\<lparr>networkRetryCount := n\<rparr>;
             backoffMs = calculateBackoff (int n) (NETWORK_BACKOFF_BASE_MS cfg)
                           (NETWORK_BACKOFF_MAX_MS cfg);
             tr1 = tr @ [WarnNoInternet n (MAX_NETWORK_RETRIES cfg) backoffMs, Sleep backoffMs,
                         CheckConnectivity]
         in if lookup n then (True, st1\<lparr>networkRetryCount := 0\<rparr>, tr1 @ [LogConnectionRestored])
            else waitLoop cfg lookup st1 tr1)
      else (False, st, tr))"
  by pat_completeness auto
termination
  by (relation "measure (\<lambda>(cfg, lookup, st, tr). MAX_NETWORK_RETRIES cfg - networkRetryCount st)")
     auto

declare waitLoop.simps [simp del]

definition waitForConnectivity ::
  "config \<Rightarrow> (nat \<Rightarrow> bool) \<Rightarrow> restart_state \<Rightarrow> event list \<Rightarrow> bool \<times> restart_state \<times> event list"
where
  "waitForConnectivity cfg lookup st tr = waitLoop cfg lookup (st\<lparr>networkRetryCount := 0\<rparr>) tr"

text \<open>
  The \<^verbatim>\<open>catch\<close> block of \<^verbatim>\<open>runWithAutoRestart\<close>: it either stops the process or lets
  the loop import the entry point again. When the crash budget is used up and the thrown
  value is \<^verbatim>\<open>null\<close> or \<^verbatim>\<open>undefined\<close>, reading \<^verbatim>\<open>err.message\<close> throws a
  \<^verbatim>\<open>TypeError\<close> before \<^verbatim>\<open>process.exit(1)\<close> is reached.
\<close>

definition onFailure ::
  "config \<Rightarrow> environment \<Rightarrow> nat \<Rightarrow> js_error option \<Rightarrow> restart_state \<Rightarrow> event list
     \<Rightarrow> step \<times> restart_state \<times> event list"
where
  "onFailure cfg env k err st tr =
     (let now = dateNow env k in
      if isNetworkError err then
        (case waitForConnectivity cfg (dnsLookup env k) st
                (tr @ [WarnNetworkError (case err of Some e \<Rightarrow> err_message e | None \<Rightarrow> None)]) of
           (isConnected, st1, tr1) \<Rightarrow>
             if \<not> isConnected
             then (Stop (ProcessExit 1), st1, tr1 @ [ErrorNoInternet (MAX_NETWORK_RETRIES cfg)])
             else (Restart, st1, tr1))
      else
        (let st1 = (if now - lastCrashTime st > CRASH_WINDOW_MS cfg
                    then st\<lparr>crashRestartCount := 0\<rparr> else st);
             st2 = st1\<lparr>crashRestartCount := crashRestartCount st1 + 1, lastCrashTime := now\<rparr>
         in if crashRestartCount st2 \<ge> MAX_CRASH_RESTARTS cfg then
              (let tr1 = tr @ [ErrorCrashed (MAX_CRASH_RESTARTS cfg) (CRASH_WINDOW_MS cfg)]
               in case err of
                    None \<Rightarrow> (Stop TypeErrorThrown, st2, tr1)
                  | Some e \<Rightarrow> (Stop (ProcessExit 1), st2, tr1 @ [ErrorMessage (err_message e)]))
            else
              (Restart, st2,
               tr @ [WarnCrashed (crashRestartCount st2) (MAX_CRASH_RESTARTS cfg), Sleep 1000])))"

text \<open>
  The \<^verbatim>\<open>while (true)\<close> loop. It can run for ever, so it is given fuel: the number of
  imports it may still make. \<open>None\<close> means the fuel ran out with the Supervisor still
  running. \<open>k\<close> counts the imports made so far.
\<close>

fun runWithAutoRestart ::
  "config \<Rightarrow> environment \<Rightarrow> nat \<Rightarrow> nat \<Rightarrow> restart_state \<Rightarrow> event list
     \<Rightarrow> (outcome \<times> restart_state \<times> event list) option"
where
  "runWithAutoRestart cfg env 0 k st tr = None"
| "runWithAutoRestart cfg env (Suc fuel) k st tr =
     (case entry env k of
        Returns \<Rightarrow> Some (NormalReturn, st, tr @ [Import])
      | Throws err \<Rightarrow>
          (case onFailure cfg env k err st (tr @ [Import]) of
             (Stop out, st', tr') \<Rightarrow> Some (out, st', tr')
           | (Restart, st', tr') \<Rightarrow> runWithAutoRestart cfg env fuel (Suc k) st' tr'))"

lemma waitLoop_frame:
  "waitLoop cfg lookup st tr = (c, st', tr') \<Longrightarrow>
   crashRestartCount st' = crashRestartCount st \<and> lastCrashTime st' = lastCrashTime st \<and>
   count_list tr' Import = count_list tr Import"
proof (induction cfg lookup st tr rule: waitLoop.induct)
  case (1 cfg lookup st tr)
  show ?case
  proof (cases "networkRetryCount st < MAX_NETWORK_RETRIES cfg")
    case False
    with "1.prems" show ?thesis by (simp add: waitLoop.simps)
  next
    case True
    note lt = this
    show ?thesis
    proof (cases "lookup (networkRetryCount st + 1)")
      case True
      with lt "1.prems" show ?thesis
        by (auto simp: waitLoop.simps [of cfg lookup st tr] Let_def)
    next
      case False
      with lt "1.prems" have
        "waitLoop cfg lookup (st\<lparr>networkRetryCount := networkRetryCount st + 1\<rparr>)
           (tr @ [WarnNoInternet (networkRetryCount st + 1) (MAX_NETWORK_RETRIES cfg)
                    (calculateBackoff (int (networkRetryCount st + 1))
                       (NETWORK_BACKOFF_BASE_MS cfg) (NETWORK_BACKOFF_MAX_MS cfg)),
                  Sleep (calculateBackoff (int (networkRetryCount st + 1))
                       (NETWORK_BACKOFF_BASE_MS cfg) (NETWORK_BACKOFF_MAX_MS cfg)),
                  CheckConnectivity]) = (c, st', tr')"
        by (simp add: waitLoop.simps [of cfg lookup st tr] Let_def)
      from "1.IH" [OF lt refl refl refl refl False this] show ?thesis by simp
    qed
  qed
qed


lemma waitLoop_restored:
  "\<exists>j. networkRetryCount st < j \<and> j \<le> MAX_NETWORK_RETRIES cfg \<and> lookup j \<Longrightarrow>
   \<exists>tr'. waitLoop cfg lookup st tr = (True, st\<lparr>networkRetryCount := 0\<rparr>, tr')"
proof (induction cfg lookup st tr rule: waitLoop.induct)
  case (1 cfg lookup st tr)
  from "1.prems" obtain j where
    j: "networkRetryCount st < j" "j \<le> MAX_NETWORK_RETRIES cfg" "lookup j"
    by blast
  then have lt: "networkRetryCount st < MAX_NETWORK_RETRIES cfg" by simp
  show ?case
  proof (cases "lookup (networkRetryCount st + 1)")
    case True
    with lt show ?thesis
      by (simp add: waitLoop.simps [of cfg lookup st tr] Let_def)
  next
    case False
    with j have "j \<noteq> networkRetryCount st + 1" by auto
    with j have "\<exists>j. networkRetryCount (st\<lparr>networkRetryCount := networkRetryCount st + 1\<rparr>) < j
        \<and> j \<le> MAX_NETWORK_RETRIES cfg \<and> lookup j"
      by (intro exI [of _ j]) simp
    from "1.IH" [OF lt refl refl refl refl False this] False lt show ?thesis
      by (simp add: waitLoop.simps [of cfg lookup st tr] Let_def)
  qed
qed

lemma onFailure_network_frame:
  assumes "isNetworkError err" and "onFailure cfg env k err st tr = (r, st', tr')"
  shows "crashRestartCount st' = crashRestartCount st \<and> lastCrashTime st' = lastCrashTime st"
proof -
  obtain c st1 tr1 where w: "waitForConnectivity cfg (dnsLookup env k) st
      (tr @ [WarnNetworkError (case err of Some e \<Rightarrow> err_message e | None \<Rightarrow> None)]) = (c, st1, tr1)"
    by (metis prod_cases3)
  then have "crashRestartCount st1 = crashRestartCount st \<and> lastCrashTime st1 = lastCrashTime st"
    unfolding waitForConnectivity_def by (auto dest: waitLoop_frame)
  moreover from assms w have "st' = st1"
    by (auto simp: onFailure_def split: if_splits)
  ultimately show ?thesis by simp
qed

lemma onFailure_network_restart:
  assumes "isNetworkError err"
    and "\<exists>j. 1 \<le> j \<and> j \<le> MAX_NETWORK_RETRIES cfg \<and> dnsLookup env k j"
  shows "\<exists>tr'. onFailure cfg env k err st tr = (Restart, st\<lparr>networkRetryCount := 0\<rparr>, tr')
           \<and> count_list tr' Import = count_list tr Import"
proof -
  let ?tr0 = "tr @ [WarnNetworkError (case err of Some e \<Rightarrow> err_message e | None \<Rightarrow> None)]"
  from assms(2) obtain j where "1 \<le> j" "j \<le> MAX_NETWORK_RETRIES cfg" "dnsLookup env k j"
    by blast
  then have
    "\<exists>j. networkRetryCount (st\<lparr>networkRetryCount := 0\<rparr>) < j \<and> j \<le> MAX_NETWORK_RETRIES cfg
       \<and> dnsLookup env k j"
    by (intro exI [of _ j]) simp
  from waitLoop_restored [OF this, of ?tr0] obtain tr1 where
    w: "waitLoop cfg (dnsLookup env k) (st\<lparr>networkRetryCount := 0\<rparr>) ?tr0
          = (True, st\<lparr>networkRetryCount := 0\<rparr>, tr1)"
    by auto
  from waitLoop_frame [OF w] have "count_list tr1 Import = count_list tr Import" by simp
  with w assms(1) show ?thesis
    by (simp add: onFailure_def waitForConnectivity_def)
qed

lemma run_network_step:
  assumes "entry env k = Throws err" and "isNetworkError err"
    and "\<exists>j. 1 \<le> j \<and> j \<le> MAX_NETWORK_RETRIES cfg \<and> dnsLookup env k j"
  shows "\<exists>tr'. runWithAutoRestart cfg env (Suc fuel) k st tr
            = runWithAutoRestart cfg env fuel (Suc k) (st\<lparr>networkRetryCount := 0\<rparr>) tr'
           \<and> count_list tr' Import = Suc (count_list tr Import)"
proof -
  from onFailure_network_restart [OF assms(2,3), of st "tr @ [Import]"] obtain tr' where
    "onFailure cfg env k err st (tr @ [Import]) = (Restart, st\<lparr>networkRetryCount := 0\<rparr>, tr')"
    "count_list tr' Import = count_list (tr @ [Import]) Import"
    by blast
  with assms(1) show ?thesis by (intro exI [of _ tr']) simp
qed

lemma run_crash_step:
  assumes "entry env k = Throws (Some e)" and "\<not> isNetworkError (Some e)"
    and "dateNow env k - lastCrashTime st \<le> CRASH_WINDOW_MS cfg"
    and "Suc (crashRestartCount st) < MAX_CRASH_RESTARTS cfg"
  shows "runWithAutoRestart cfg env (Suc fuel) k st tr
           = runWithAutoRestart cfg env fuel (Suc k)
               (st\<lparr>crashRestartCount := Suc (crashRestartCount st), lastCrashTime := dateNow env k\<rparr>)
               (tr @ [Import, WarnCrashed (Suc (crashRestartCount st)) (MAX_CRASH_RESTARTS cfg),
                      Sleep 1000])"
  using assms by (simp add: onFailure_def Let_def)

lemma run_crash_stop:
  assumes "entry env k = Throws (Some e)" and "\<not> isNetworkError (Some e)"
    and "dateNow env k - lastCrashTime st \<le> CRASH_WINDOW_MS cfg"
    and "MAX_CRASH_RESTARTS cfg \<le> Suc (crashRestartCount st)"
  shows "runWithAutoRestart cfg env (Suc fuel) k st tr
           = Some (ProcessExit 1,
               st\<lparr>crashRestartCount := Suc (crashRestartCount st), lastCrashTime := dateNow env k\<rparr>,
               tr @ [Import, ErrorCrashed (MAX_CRASH_RESTARTS cfg) (CRASH_WINDOW_MS cfg),
                     ErrorMessage (err_message e)])"
  using assms by (simp add: onFailure_def Let_def)

lemma run_first_crash:
  assumes "entry env k = Throws (Some e)" and "\<not> isNetworkError (Some e)"
    and "crashRestartCount st = 0" and "1 < MAX_CRASH_RESTARTS cfg"
  shows "runWithAutoRestart cfg env (Suc fuel) k st tr
           = runWithAutoRestart cfg env fuel (Suc k)
               (st\<lparr>crashRestartCount := 1, lastCrashTime := dateNow env k\<rparr>)
               (tr @ [Import, WarnCrashed 1 (MAX_CRASH_RESTARTS cfg), Sleep 1000])"
  using assms by (simp add: onFailure_def Let_def)


lemma onFailure_generic:
  assumes "\<not> isNetworkError err" and "onFailure cfg env k err st tr = (r, st', tr')"
  shows "crashRestartCount st'
           = (if dateNow env k - lastCrashTime st > CRASH_WINDOW_MS cfg then 0
              else crashRestartCount st) + 1
         \<and> lastCrashTime st' = dateNow env k
         \<and> (r = Restart) = (crashRestartCount st' < MAX_CRASH_RESTARTS cfg)"
  using assms
  by (cases err) (auto simp: onFailure_def Let_def split: if_splits)

definition crashingEnv :: environment where
  "crashingEnv = \<lparr> entry = (\<lambda>k. Throws (Some \<lparr>err_code = None, err_message = Some ''boom''\<rparr>)),
      dateNow = (\<lambda>k. 1700000000000 + 1000 * int k), dnsLookup = (\<lambda>k n. False) \<rparr>"

definition flakyNetworkEnv :: environment where
  "flakyNetworkEnv =
     \<lparr> entry = (\<lambda>k. if k < 3
                      then Throws (Some \<lparr>err_code = Some ''ENOTFOUND'',
                                          err_message = Some ''getaddrinfo ENOTFOUND api.anthropic.com''\<rparr>)
                      else Returns),
       dateNow = (\<lambda>k. 1700000000000 + 1000 * int k),
       dnsLookup = (\<lambda>k n. n = 2) \<rparr>"

text \<open>
  The crash-budget scenario for thrown error objects: an entry point that throws a
  non-network-classified error object at each of its first three runs, under
  \<^verbatim>\<open>CONFIG\<close> (crash budget 3, window 60000 ms) and with each crash within the window
  of the one before, is restarted exactly twice; the third failure ends the process with
  the fatal diagnostic and exit status 1, whatever fuel beyond three runs is given. On
  every generic failure the crash counter is reset when the window has passed,
  incremented and timestamped, and the Supervisor restarts exactly when the counter is
  still below the configured maximum.
\<close>

lemma crash_budget_error_objects:
  assumes "entry env 0 = Throws (Some e0)" and "\<not> isNetworkError (Some e0)"
    and "entry env 1 = Throws (Some e1)" and "\<not> isNetworkError (Some e1)"
    and "entry env 2 = Throws (Some e2)" and "\<not> isNetworkError (Some e2)"
    and "dateNow env 1 - dateNow env 0 \<le> 60000"
    and "dateNow env 2 - dateNow env 1 \<le> 60000"
    and "3 \<le> fuel"
  shows "runWithAutoRestart CONFIG env fuel 0 initialState []
           = Some (ProcessExit 1,
                   \<lparr>crashRestartCount = 3, lastCrashTime = dateNow env 2, networkRetryCount = 0\<rparr>,
                   [Import, WarnCrashed 1 3, Sleep 1000,
                    Import, WarnCrashed 2 3, Sleep 1000,
                    Import, ErrorCrashed 3 60000, ErrorMessage (err_message e2)])
         \<and> (\<forall>cfg k err st tr. \<not> isNetworkError err \<longrightarrow>
               (case onFailure cfg env k err st tr of
                  (r, st', tr') \<Rightarrow>
                    crashRestartCount st'
                      = (if dateNow env k - lastCrashTime st > CRASH_WINDOW_MS cfg then 0
                         else crashRestartCount st) + 1
                    \<and> lastCrashTime st' = dateNow env k
                    \<and> (r = Restart) = (crashRestartCount st' < MAX_CRASH_RESTARTS cfg)))"
proof (intro conjI allI impI)
  from \<open>3 \<le> fuel\<close> obtain f where fuel: "fuel = Suc (Suc (Suc f))"
    by (metis Suc_le_D numeral_3_eq_3 Suc_le_mono)
  have cfg: "MAX_CRASH_RESTARTS CONFIG = 3" "CRASH_WINDOW_MS CONFIG = 60000"
    by (simp_all add: CONFIG_def)
  let ?s1 = "initialState\<lparr>crashRestartCount := 1, lastCrashTime := dateNow env 0\<rparr>"
  let ?t1 = "[] @ [Import, WarnCrashed 1 (MAX_CRASH_RESTARTS CONFIG), Sleep 1000]"
  have 1: "runWithAutoRestart CONFIG env fuel 0 initialState []
      = runWithAutoRestart CONFIG env (Suc (Suc f)) (Suc 0) ?s1 ?t1"
    unfolding fuel using assms(1,2)
    by (intro run_first_crash) (simp_all add: initialState_def cfg)
  let ?s2 = "?s1\<lparr>crashRestartCount := Suc (crashRestartCount ?s1), lastCrashTime := dateNow env (Suc 0)\<rparr>"
  let ?t2 = "?t1 @ [Import, WarnCrashed (Suc (crashRestartCount ?s1)) (MAX_CRASH_RESTARTS CONFIG), Sleep 1000]"
  have 2: "runWithAutoRestart CONFIG env (Suc (Suc f)) (Suc 0) ?s1 ?t1
      = runWithAutoRestart CONFIG env (Suc f) (Suc (Suc 0)) ?s2 ?t2"
    using assms(3,4,7) by (intro run_crash_step) (simp_all add: cfg)
  have 3: "runWithAutoRestart CONFIG env (Suc f) (Suc (Suc 0)) ?s2 ?t2
      = Some (ProcessExit 1,
          ?s2\<lparr>crashRestartCount := Suc (crashRestartCount ?s2), lastCrashTime := dateNow env (Suc (Suc 0))\<rparr>,
          ?t2 @ [Import, ErrorCrashed (MAX_CRASH_RESTARTS CONFIG) (CRASH_WINDOW_MS CONFIG),
                 ErrorMessage (err_message e2)])"
    using assms(5,6,8) by (intro run_crash_stop) (simp_all add: cfg numeral_2_eq_2)
  show "runWithAutoRestart CONFIG env fuel 0 initialState []
           = Some (ProcessExit 1,
                   \<lparr>crashRestartCount = 3, lastCrashTime = dateNow env 2, networkRetryCount = 0\<rparr>,
                   [Import, WarnCrashed 1 3, Sleep 1000,
                    Import, WarnCrashed 2 3, Sleep 1000,
                    Import, ErrorCrashed 3 60000, ErrorMessage (err_message e2)])"
    unfolding 1 2 3 by (simp add: cfg initialState_def numeral_2_eq_2 numeral_3_eq_3)
next
  fix cfg k err st tr
  assume n: "\<not> isNetworkError err"
  obtain r st' tr' where o: "onFailure cfg env k err st tr = (r, st', tr')"
    by (metis prod_cases3)
  from onFailure_generic [OF n o] o
  show "case onFailure cfg env k err st tr of
          (r, st', tr') \<Rightarrow>
            crashRestartCount st'
              = (if dateNow env k - lastCrashTime st > CRASH_WINDOW_MS cfg then 0
                 else crashRestartCount st) + 1
            \<and> lastCrashTime st' = dateNow env k
            \<and> (r = Restart) = (crashRestartCount st' < MAX_CRASH_RESTARTS cfg)"
    by simp
qed

lemma boom_not_network:
  "\<not> isNetworkError (Some \<lparr>err_code = None, err_message = Some ''boom''\<rparr>)"
  by (simp add: isNetworkError_def networkErrorMessages_def toLowerCase_def toLowerChar_def
      upperAZ_def lowerAZ_def)

lemma crash_budget_error_objects_example:
  "entry crashingEnv 0 = Throws (Some \<lparr>err_code = None, err_message = Some ''boom''\<rparr>)
   \<and> \<not> isNetworkError (Some \<lparr>err_code = None, err_message = Some ''boom''\<rparr>)
   \<and> dateNow crashingEnv 1 - dateNow crashingEnv 0 \<le> 60000
   \<and> dateNow crashingEnv 2 - dateNow crashingEnv 1 \<le> 60000
   \<and> runWithAutoRestart CONFIG crashingEnv 5 0 initialState []
        = Some (ProcessExit 1,
                \<lparr>crashRestartCount = 3, lastCrashTime = 1700000002000, networkRetryCount = 0\<rparr>,
                [Import, WarnCrashed 1 3, Sleep 1000,
                 Import, WarnCrashed 2 3, Sleep 1000,
                 Import, ErrorCrashed 3 60000, ErrorMessage (Some ''boom'')])"
proof -
  let ?e = "\<lparr>err_code = None, err_message = Some ''boom''\<rparr>"
  have e: "entry crashingEnv k = Throws (Some ?e)" for k
    by (simp add: crashingEnv_def)
  have d: "dateNow crashingEnv 1 - dateNow crashingEnv 0 \<le> 60000"
    "dateNow crashingEnv 2 - dateNow crashingEnv 1 \<le> 60000"
    by (simp_all add: crashingEnv_def)
  have l: "dateNow crashingEnv 2 = 1700000002000" by (simp add: crashingEnv_def)
  from crash_budget_error_objects [of crashingEnv ?e ?e ?e 5, OF e boom_not_network e boom_not_network
      e boom_not_network d]
  show ?thesis using e d boom_not_network l by simp
qed

definition nullThrowingEnv :: environment where
  "nullThrowingEnv = \<lparr> entry = (\<lambda>k. Throws None),
      dateNow = (\<lambda>k. 1700000000000 + 1000 * int k), dnsLookup = (\<lambda>k n. False) \<rparr>"

text \<open>
  C1 (the code differs): an entry point that always throws \<^verbatim>\<open>null\<close> throws a
  non-network-classified value, since \<^verbatim>\<open>isNetworkError\<close> answers \<^verbatim>\<open>false\<close> for it.
  Under \<^verbatim>\<open>CONFIG\<close>, with the crashes one second apart, the Supervisor restarts twice
  and at the third failure prints the first line of the diagnostic; reading
  \<^verbatim>\<open>err.message\<close> then throws a \<^verbatim>\<open>TypeError\<close> out of the catch block, and
  \<^verbatim>\<open>process.exit(1)\<close> is never reached. The same run with an error object ends with
  exit status 1.
\<close>

theorem C1_thrown_null_not_exited:
  "\<not> isNetworkError None
   \<and> dateNow nullThrowingEnv 1 - dateNow nullThrowingEnv 0 \<le> 60000
   \<and> dateNow nullThrowingEnv 2 - dateNow nullThrowingEnv 1 \<le> 60000
   \<and> runWithAutoRestart CONFIG nullThrowingEnv 5 0 initialState []
        = Some (TypeErrorThrown,
                \<lparr>crashRestartCount = 3, lastCrashTime = 1700000002000, networkRetryCount = 0\<rparr>,
                [Import, WarnCrashed 1 3, Sleep 1000,
                 Import, WarnCrashed 2 3, Sleep 1000,
                 Import, ErrorCrashed 3 60000])
   \<and> runWithAutoRestart CONFIG crashingEnv 5 0 initialState []
        = Some (ProcessExit 1,
                \<lparr>crashRestartCount = 3, lastCrashTime = 1700000002000, networkRetryCount = 0\<rparr>,
                [Import, WarnCrashed 1 3, Sleep 1000,
                 Import, WarnCrashed 2 3, Sleep 1000,
                 Import, ErrorCrashed 3 60000, ErrorMessage (Some ''boom'')])"
  by code_simp

text \<open>
  C2: whenever the failure is network-classified, the catch block leaves
  \<^verbatim>\<open>crashRestartCount\<close> and \<^verbatim>\<open>lastCrashTime\<close> as they were, whether connectivity
  comes back or not. With \<^verbatim>\<open>CONFIG\<close> (retry budget 10), an entry point that throws a
  network-classified error at its first three runs and returns at the fourth, each wait
  seeing a successful lookup within the budget, is restarted three times (four imports),
  and the run returns normally with the restart state exactly as it started.
\<close>

theorem C2_network_budget:
  assumes "entry env 0 = Throws err0" and "isNetworkError err0"
    and "entry env 1 = Throws err1" and "isNetworkError err1"
    and "entry env 2 = Throws err2" and "isNetworkError err2"
    and "entry env 3 = Returns"
    and "\<forall>k<3. \<exists>j. 1 \<le> j \<and> j \<le> 10 \<and> dnsLookup env k j"
    and "4 \<le> fuel"
  shows "(\<exists>tr. runWithAutoRestart CONFIG env fuel 0 initialState []
                  = Some (NormalReturn, initialState, tr)
               \<and> count_list tr Import = 4)
         \<and> (\<forall>cfg k err st tr. isNetworkError err \<longrightarrow>
               (case onFailure cfg env k err st tr of
                  (r, st', tr') \<Rightarrow>
                    crashRestartCount st' = crashRestartCount st
                    \<and> lastCrashTime st' = lastCrashTime st))"
proof (intro conjI allI impI)
  from \<open>4 \<le> fuel\<close> obtain f where fuel: "fuel = Suc (Suc (Suc (Suc f)))"
    by (metis Suc_le_D Suc_le_mono eval_nat_numeral(2) numeral_3_eq_3 semiring_norm(26,27))
  have m: "MAX_NETWORK_RETRIES CONFIG = 10" by (simp add: CONFIG_def)
  have p: "\<exists>j. 1 \<le> j \<and> j \<le> MAX_NETWORK_RETRIES CONFIG \<and> dnsLookup env k j" if "k < 3" for k
    using assms(8) that unfolding m by blast
  have i: "initialState\<lparr>networkRetryCount := 0\<rparr> = initialState"
    by (simp add: initialState_def)
  from run_network_step [OF assms(1,2) p, of "Suc (Suc (Suc f))" initialState "[]"]
  obtain t1 where 1: "runWithAutoRestart CONFIG env fuel 0 initialState []
        = runWithAutoRestart CONFIG env (Suc (Suc (Suc f))) (Suc 0) initialState t1"
      and c1: "count_list t1 Import = 1"
    unfolding fuel i by auto
  from run_network_step [OF _ assms(4) p, of "Suc 0" "Suc (Suc f)" initialState t1] assms(3)
  obtain t2 where 2: "runWithAutoRestart CONFIG env (Suc (Suc (Suc f))) (Suc 0) initialState t1
        = runWithAutoRestart CONFIG env (Suc (Suc f)) (Suc (Suc 0)) initialState t2"
      and c2: "count_list t2 Import = 2"
    unfolding i c1 by auto
  from run_network_step [OF _ assms(6) p, of "Suc (Suc 0)" "Suc f" initialState t2] assms(5)
  obtain t3 where 3: "runWithAutoRestart CONFIG env (Suc (Suc f)) (Suc (Suc 0)) initialState t2
        = runWithAutoRestart CONFIG env (Suc f) (Suc (Suc (Suc 0))) initialState t3"
      and c3: "count_list t3 Import = 3"
    unfolding i c2 by (auto simp: numeral_2_eq_2)
  have 4: "runWithAutoRestart CONFIG env (Suc f) (Suc (Suc (Suc 0))) initialState t3
        = Some (NormalReturn, initialState, t3 @ [Import])"
    using assms(7) by (simp add: numeral_3_eq_3)
  show "\<exists>tr. runWithAutoRestart CONFIG env fuel 0 initialState []
                  = Some (NormalReturn, initialState, tr)
               \<and> count_list tr Import = 4"
    unfolding 1 2 3 4 using c3 by simp
next
  fix cfg k err st tr
  assume n: "isNetworkError err"
  obtain r st' tr' where o: "onFailure cfg env k err st tr = (r, st', tr')"
    by (metis prod_cases3)
  from onFailure_network_frame [OF n o] o
  show "case onFailure cfg env k err st tr of
          (r, st', tr') \<Rightarrow>
            crashRestartCount st' = crashRestartCount st \<and> lastCrashTime st' = lastCrashTime st"
    by simp
qed


lemma enotfound_network:
  "isNetworkError (Some \<lparr>err_code = Some ''ENOTFOUND'',
      err_message = Some ''getaddrinfo ENOTFOUND api.anthropic.com''\<rparr>)"
  by (simp add: isNetworkError_def networkErrorCodes_def)

theorem C2_network_budget_witness:
  "entry flakyNetworkEnv 0
     = Throws (Some \<lparr>err_code = Some ''ENOTFOUND'',
                      err_message = Some ''getaddrinfo ENOTFOUND api.anthropic.com''\<rparr>)
   \<and> isNetworkError (Some \<lparr>err_code = Some ''ENOTFOUND'',
                      err_message = Some ''getaddrinfo ENOTFOUND api.anthropic.com''\<rparr>)
   \<and> entry flakyNetworkEnv 3 = Returns
   \<and> dnsLookup flakyNetworkEnv 0 2
   \<and> (\<exists>tr. runWithAutoRestart CONFIG flakyNetworkEnv 6 0 initialState []
               = Some (NormalReturn, initialState, tr)
            \<and> count_list tr Import = 4)"
proof -
  let ?e = "Some \<lparr>err_code = Some ''ENOTFOUND'',
      err_message = Some ''getaddrinfo ENOTFOUND api.anthropic.com''\<rparr>"
  have e: "entry flakyNetworkEnv 0 = Throws ?e" "entry flakyNetworkEnv 1 = Throws ?e"
    "entry flakyNetworkEnv 2 = Throws ?e"
    by (simp_all add: flakyNetworkEnv_def)
  have r: "entry flakyNetworkEnv 3 = Returns" by (simp add: flakyNetworkEnv_def)
  have d: "dnsLookup flakyNetworkEnv k 2" for k by (simp add: flakyNetworkEnv_def)
  have p: "\<forall>k<3. \<exists>j. 1 \<le> j \<and> j \<le> 10 \<and> dnsLookup flakyNetworkEnv k j"
    using d by (intro allI impI exI [of _ 2]) simp
  from C2_network_budget [of flakyNetworkEnv ?e ?e ?e 6, OF e(1) enotfound_network
      e(2) enotfound_network e(3) enotfound_network r p]
  show ?thesis using e r d enotfound_network by simp
qed

section \<open>Regular expressions\<close>

text \<open>
  The patterns of \<^verbatim>\<open>blocklist.js\<close> use literal text, character classes, the greedy
  quantifiers \<^verbatim>\<open>*\<close> and \<^verbatim>\<open>+\<close> on a single character or class, sequence and
  alternation. \<open>rests\<close> lists what can remain of the input after a match at its start,
  in the order a backtracking matcher tries: the first alternative first, the longest
  repetition first.
\<close>

datatype atom = Lit char | Cls "char list" | NotCls "char list"

datatype regex =
    One atom
  | Str string
  | Many atom
  | Many1 atom
  | Cat regex regex
  | Or regex regex

text \<open>\<^verbatim>\<open>\s\<close>, \<^verbatim>\<open>\d\<close>, \<^verbatim>\<open>.\<close> and \<^verbatim>\<open>[A-Za-z0-9]\<close> on 8-bit code units.\<close>

definition whitespace :: atom where
  "whitespace = Cls [CHR 0x09, CHR 0x0A, CHR 0x0B, CHR 0x0C, CHR 0x0D, CHR 0x20, CHR 0xA0]"

definition digit :: atom where
  "digit = Cls digits09"

definition dot :: atom where
  "dot = NotCls [CHR 0x0A, CHR 0x0D]"

definition alnum :: atom where
  "alnum = Cls (upperAZ @ lowerAZ @ digits09)"

definition sameChar :: "bool \<Rightarrow> char \<Rightarrow> char \<Rightarrow> bool" where
  "sameChar ignoreCase a b = (if ignoreCase then toLowerChar a = toLowerChar b else a = b)"

fun atomMatches :: "bool \<Rightarrow> atom \<Rightarrow> char \<Rightarrow> bool" where
  "atomMatches ic (Lit l) c = sameChar ic l c"
| "atomMatches ic (Cls cs) c = list_ex (\<lambda>m. sameChar ic m c) cs"
| "atomMatches ic (NotCls cs) c = (\<not> list_ex (\<lambda>m. sameChar ic m c) cs)"

fun strRest :: "bool \<Rightarrow> string \<Rightarrow> string \<Rightarrow> string option" where
  "strRest ic [] s = Some s"
| "strRest ic (l # ls) [] = None"
| "strRest ic (l # ls) (c # cs) = (if sameChar ic l c then strRest ic ls cs else None)"

fun manyRests :: "(char \<Rightarrow> bool) \<Rightarrow> string \<Rightarrow> string list" where
  "manyRests p [] = [[]]"
| "manyRests p (c # cs) = (if p c then manyRests p cs else []) @ [c # cs]"

fun rests :: "bool \<Rightarrow> regex \<Rightarrow> string \<Rightarrow> string list" where
  "rests ic (One a) s = (case s of [] \<Rightarrow> [] | c # cs \<Rightarrow> if atomMatches ic a c then [cs] else [])"
| "rests ic (Str l) s = (case strRest ic l s of None \<Rightarrow> [] | Some r \<Rightarrow> [r])"
| "rests ic (Many a) s = manyRests (atomMatches ic a) s"
| "rests ic (Many1 a) s =
     (case s of [] \<Rightarrow> [] | c # cs \<Rightarrow> if atomMatches ic a c then manyRests (atomMatches ic a) cs else [])"
| "rests ic (Cat r1 r2) s = concat (map (rests ic r2) (rests ic r1 s))"
| "rests ic (Or r1 r2) s = rests ic r1 s @ rests ic r2 s"

text \<open>\<^verbatim>\<open>pattern.test(s)\<close> for a pattern without the \<^verbatim>\<open>g\<close> flag: a match at any index.\<close>

fun regexTest :: "bool \<Rightarrow> regex \<Rightarrow> string \<Rightarrow> bool" where
  "regexTest ic r [] = (rests ic r [] \<noteq> [])"
| "regexTest ic r (c # cs) = (rests ic r (c # cs) \<noteq> [] \<or> regexTest ic r cs)"

text \<open>
  \<^verbatim>\<open>s.match(pattern)\<close> for a pattern with the \<^verbatim>\<open>g\<close> flag: the matched substrings
  from left to right, each search starting where the match before ended (one code unit
  further after an empty match).
\<close>

fun matchAll :: "bool \<Rightarrow> regex \<Rightarrow> string \<Rightarrow> string list" where
  "matchAll ic r s =
     (case rests ic r s of
        [] \<Rightarrow> (case s of [] \<Rightarrow> [] | c # cs \<Rightarrow> matchAll ic r cs)
      | rest # _ \<Rightarrow>
          if length rest < length s
          then take (length s - length rest) s # matchAll ic r rest
          else [] # (case s of [] \<Rightarrow> [] | c # cs \<Rightarrow> matchAll ic r cs))"

declare matchAll.simps [simp del]

fun seq :: "regex list \<Rightarrow> regex" where
  "seq [] = Str []"
| "seq [r] = r"
| "seq (r # rs) = Cat r (seq rs)"

fun alts :: "regex list \<Rightarrow> regex" where
  "alts [] = One (Cls [])"
| "alts [r] = r"
| "alts (r # rs) = Or r (alts rs)"


section \<open>Command Validator\<close>

record cygpath_rule =
  cy_name :: string
  pattern :: regex
  cy_reason :: string

record safety_rule =
  sf_name :: string
  detect :: regex
  unless :: regex
  sf_reason :: string

record validation =
  allowed :: bool
  reason :: "string option"

definition allow :: validation where
  "allow = \<lparr> allowed = True, reason = None \<rparr>"

definition deny :: "string \<Rightarrow> validation" where
  "deny r = \<lparr> allowed = False, reason = Some r \<rparr>"

text \<open>
  The crash-pattern rules, none with a flag:
  \<^verbatim>\<open>/'[^']*'[^']*'/\<close>, \<^verbatim>\<open>/\$\(|`|\\n|\\r/\<close> and
  \<^verbatim>\<open>/\\\\\\\\[A-Za-z0-9]|\/\/[A-Za-z0-9]+\/[A-Za-z0-9]/\<close>.
\<close>

definition nestedQuotes :: cygpath_rule where
  "nestedQuotes = \<lparr> cy_name = ''nested-quotes'',
      pattern = seq [One (Lit squote), Many (NotCls [squote]), One (Lit squote),
                     Many (NotCls [squote]), One (Lit squote)],
      cy_reason = ''Path contains nested quotes (cygpath crash risk) - use Read/Glob tools instead'' \<rparr>"

definition shellExpansion :: cygpath_rule where
  "shellExpansion = \<lparr> cy_name = ''shell-expansion'',
      pattern = alts [Str ''$('', Str ''`'', Str [backslash, CHR ''n''], Str [backslash, CHR ''r'']],
      cy_reason = ''Path contains shell expansion (cygpath crash risk) - use Read/Glob tools instead'' \<rparr>"

definition uncPath :: cygpath_rule where
  "uncPath = \<lparr> cy_name = ''unc-path'',
      pattern = Or (Cat (Str [backslash, backslash, backslash, backslash]) (One alnum))
                   (seq [Str ''//'', Many1 alnum, Str ''/'', One alnum]),
      cy_reason = ''UNC network path detected (cygpath crash risk) - map drive first or use local path'' \<rparr>"

definition cygpathRules :: "cygpath_rule list" where
  "cygpathRules = [nestedQuotes, shellExpansion, uncPath]"

text \<open>
  The hang-pattern rules, all with the \<^verbatim>\<open>i\<close> flag. Detect and unless are
  \<^verbatim>\<open>/dir.*\/s/i\<close> and \<^verbatim>\<open>/\*\.|\.json|\.md|\.txt|\.sh|\.toml|\.xml|\.cs|\.js|\.ts|\.py/i\<close>;
  \<^verbatim>\<open>/find.*(Users\/|\/c\/Users|\/home\/[^\/]+\/|\.claude)/i\<close> and \<^verbatim>\<open>/-maxdepth|timeout/i\<close>;
  \<^verbatim>\<open>/tree.*(Users\/|\.claude|\/c\/Users|\/home)/i\<close> and \<^verbatim>\<open>/-L\s+\d+|-l/i\<close>;
  \<^verbatim>\<open>/git\s+(log|diff|show).*--all/i\<close> and \<^verbatim>\<open>/-n\s+\d+|--max-count/i\<close>.
\<close>

definition dirRecursive :: safety_rule where
  \<open>dirRecursive = \<lparr> sf_name = ''dir-recursive'',
      detect = seq [Str ''dir'', Many dot, Str ''/s''],
      unless = alts [Str ''*.'', Str ''.json'', Str ''.md'', Str ''.txt'', Str ''.sh'', Str ''.toml'',
                     Str ''.xml'', Str ''.cs'', Str ''.js'', Str ''.ts'', Str ''.py''],
      sf_reason = ''dir /s without file pattern - use dir "path'' @ [backslash]
                    @ ''*.ext" /s or Glob tool'' \<rparr>\<close>

definition findNoMaxdepth :: safety_rule where
  "findNoMaxdepth = \<lparr> sf_name = ''find-no-maxdepth'',
      detect = seq [Str ''find'', Many dot,
                    alts [Str ''Users/'', Str ''/c/Users'',
                          seq [Str ''/home/'', Many1 (NotCls ''/''), Str ''/''], Str ''.claude'']],
      unless = alts [Str ''-maxdepth'', Str ''timeout''],
      sf_reason = ''find on user directory without -maxdepth - add -maxdepth N or use Glob tool'' \<rparr>"

definition treeNoDepth :: safety_rule where
  "treeNoDepth = \<lparr> sf_name = ''tree-no-depth'',
      detect = seq [Str ''tree'', Many dot,
                    alts [Str ''Users/'', Str ''.claude'', Str ''/c/Users'', Str ''/home'']],
      unless = Or (seq [Str ''-L'', Many1 whitespace, Many1 digit]) (Str ''-l''),
      sf_reason = ''tree without depth limit - add -L N or use ls'' \<rparr>"

definition gitAllNoLimit :: safety_rule where
  "gitAllNoLimit = \<lparr> sf_name = ''git-all-no-limit'',
      detect = seq [Str ''git'', Many1 whitespace, alts [Str ''log'', Str ''diff'', Str ''show''],
                    Many dot, Str ''--all''],
      unless = Or (seq [Str ''-n'', Many1 whitespace, Many1 digit]) (Str ''--max-count''),
      sf_reason = ''git --all without limit - add -n N or --max-count=N'' \<rparr>"

definition safetyRules :: "safety_rule list" where
  "safetyRules = [dirRecursive, findNoMaxdepth, treeNoDepth, gitAllNoLimit]"

text \<open>\<^verbatim>\<open>config.maxPathLength\<close>.\<close>

definition maxPathLength :: nat where
  "maxPathLength = 260"

definition unbalancedReason :: string where
  "unbalancedReason = ''Command has unbalanced quotes (cygpath crash risk) - ensure quotes are paired''"

definition pathLengthReason :: string where
  "pathLengthReason = ''Path exceeds 260 characters (cygpath crash risk) - use shorter paths''"

text \<open>\<^verbatim>\<open>/[A-Za-z]:\\[^ ]+|\/[^ ]+/g\<close>, the scan for path-like substrings.\<close>

definition pathPattern :: regex where
  "pathPattern = Or (seq [One (Cls (upperAZ @ lowerAZ)), Str [CHR '':'', backslash], Many1 (NotCls '' '')])
                    (seq [Str ''/'', Many1 (NotCls '' '')])"

text \<open>
  \<^verbatim>\<open>validateCommand\<close> on a string (any other value is allowed at once, as the empty
  string is). The two \<^verbatim>\<open>for\<close> loops return at the first rule that applies.
\<close>

definition validateCommand :: "string \<Rightarrow> validation" where
  "validateCommand command =
     (if command = [] then allow
      else if odd (count_list command squote) then deny unbalancedReason
      else case find (\<lambda>rule. regexTest False (pattern rule) command) cygpathRules of
             Some rule \<Rightarrow> deny (cy_reason rule)
           | None \<Rightarrow>
               if list_ex (\<lambda>p. length p > maxPathLength) (matchAll False pathPattern command)
               then deny pathLengthReason
               else case find (\<lambda>rule. regexTest True (detect rule) command
                                        \<and> \<not> regexTest True (unless rule) command) safetyRules of
                      Some rule \<Rightarrow> deny (sf_reason rule)
                    | None \<Rightarrow> allow)"

text \<open>A command reaches the hang-pattern rules when no earlier check has returned.\<close>

definition reachesSafetyRules :: "string \<Rightarrow> bool" where
  "reachesSafetyRules command =
     (command \<noteq> [] \<and> even (count_list command squote)
      \<and> find (\<lambda>rule. regexTest False (pattern rule) command) cygpathRules = None
      \<and> \<not> list_ex (\<lambda>p. length p > maxPathLength) (matchAll False pathPattern command))"

definition oddQuoteCommand :: string where
  "oddQuoteCommand = ''git log --all $(date) '' @ [squote] @ ''x''"

definition nestedQuoteCommand :: string where
  "nestedQuoteCommand = [squote] @ ''a'' @ [squote, dquote] @ ''b'' @ [dquote, squote] @ ''c'' @ [squote]"

lemma nested_needs_input: "\<not> regexTest False (pattern nestedQuotes) []"
  by (simp add: nestedQuotes_def)

lemma detect_needs_input: "rule \<in> set safetyRules \<Longrightarrow> \<not> regexTest True (detect rule) []"
  by (auto simp: safetyRules_def dirRecursive_def findNoMaxdepth_def treeNoDepth_def
      gitAllNoLimit_def)

lemma validate_odd:
  "odd (count_list command squote) \<Longrightarrow> validateCommand command = deny unbalancedReason"
  by (auto simp: validateCommand_def)

lemma validate_nested:
  assumes "even (count_list command squote)" and "regexTest False (pattern nestedQuotes) command"
  shows "validateCommand command = deny (cy_reason nestedQuotes)"
proof -
  from assms(2) have "command \<noteq> []" using nested_needs_input by auto
  with assms show ?thesis
    by (simp add: validateCommand_def cygpathRules_def)
qed

lemma validate_reaches:
  "reachesSafetyRules command \<Longrightarrow>
   validateCommand command =
     (case find (\<lambda>rule. regexTest True (detect rule) command
                          \<and> \<not> regexTest True (unless rule) command) safetyRules of
        Some rule \<Rightarrow> deny (sf_reason rule)
      | None \<Rightarrow> allow)"
  by (simp add: reachesSafetyRules_def validateCommand_def)

lemma validate_fires:
  assumes "rule \<in> set safetyRules" and "regexTest True (detect rule) command"
    and "\<not> regexTest True (unless rule) command"
  shows "\<not> allowed (validateCommand command)"
proof -
  from assms(1,2) have ne: "command \<noteq> []" using detect_needs_input by auto
  from assms have "find (\<lambda>rule. regexTest True (detect rule) command
      \<and> \<not> regexTest True (unless rule) command) safetyRules \<noteq> None"
    by (auto simp: find_None_iff)
  with ne show ?thesis
    by (auto simp: validateCommand_def deny_def split: option.splits)
qed

lemma validate_denied_by_rule:
  assumes "reachesSafetyRules command" and "\<not> allowed (validateCommand command)"
  shows "\<exists>rule\<in>set safetyRules. regexTest True (detect rule) command
           \<and> \<not> regexTest True (unless rule) command
           \<and> reason (validateCommand command) = Some (sf_reason rule)"
proof (cases "find (\<lambda>rule. regexTest True (detect rule) command
      \<and> \<not> regexTest True (unless rule) command) safetyRules")
  case None
  with assms show ?thesis by (simp add: validate_reaches allow_def)
next
  case (Some rule)
  then have "rule \<in> set safetyRules" "regexTest True (detect rule) command"
    "\<not> regexTest True (unless rule) command"
    by (auto simp: find_Some_iff)
  moreover from Some assms(1) have "reason (validateCommand command) = Some (sf_reason rule)"
    by (simp add: validate_reaches deny_def)
  ultimately show ?thesis by blast
qed

lemma git_log_all_denied: "validateCommand ''git log --all'' = deny (sf_reason gitAllNoLimit)"
  by code_simp

lemma git_log_all_limit_allowed: "validateCommand ''git log --all -n 50'' = allow"
  by code_simp

lemma git_log_all_reaches: "reachesSafetyRules ''git log --all''"
  by code_simp

lemma git_log_all_fires:
  "regexTest True (detect gitAllNoLimit) ''git log --all''
   \<and> \<not> regexTest True (unless gitAllNoLimit) ''git log --all''"
  by code_simp


lemma reason_unbalanced: "includesStr unbalancedReason ''unbalanced''"
  by code_simp

lemma reason_nested: "includesStr (cy_reason nestedQuotes) ''nested quotes''"
  by code_simp

lemma oddQuote_odd: "odd (count_list oddQuoteCommand squote)"
  by code_simp

lemma oddQuote_shell: "regexTest False (pattern shellExpansion) oddQuoteCommand"
  by code_simp

lemma oddQuote_git:
  "regexTest True (detect gitAllNoLimit) oddQuoteCommand
   \<and> \<not> regexTest True (unless gitAllNoLimit) oddQuoteCommand"
  by code_simp

lemma nestedQuote_even: "even (count_list nestedQuoteCommand squote)"
  by code_simp

lemma nestedQuote_nested: "regexTest False (pattern nestedQuotes) nestedQuoteCommand"
  by code_simp


lemma rests_skip_to_quote:
  "rests False (Cat (Many (NotCls [squote])) (Cat (One (Lit squote)) r)) s
     = (case dropWhile (\<lambda>c. c \<noteq> squote) s of [] \<Rightarrow> [] | x # t \<Rightarrow> rests False r t)"
proof (induction s)
  case Nil
  show ?case by simp
next
  case (Cons c s)
  then show ?case by (auto simp: sameChar_def)
qed

lemma rests_skip_to_last_quote:
  "rests False (Cat (Many (NotCls [squote])) (One (Lit squote))) s
     = (case dropWhile (\<lambda>c. c \<noteq> squote) s of [] \<Rightarrow> [] | x # t \<Rightarrow> [t])"
proof (induction s)
  case Nil
  show ?case by simp
next
  case (Cons c s)
  then show ?case by (auto simp: sameChar_def)
qed

lemma dropWhile_quote_none:
  "dropWhile (\<lambda>c. c \<noteq> squote) s = [] \<Longrightarrow> count_list s squote = 0"
  by (auto simp: dropWhile_eq_Nil_conv count_list_0_iff)

lemma dropWhile_quote_some:
  "dropWhile (\<lambda>c. c \<noteq> squote) s = x # t \<Longrightarrow> count_list s squote = Suc (count_list t squote)"
  by (induction s) (auto split: if_splits)

lemma rests_quote_first:
  "rests False (Cat (One (Lit squote)) r) (c # t) = (if c = squote then rests False r t else [])"
  by (auto simp: sameChar_def)

lemma nestedQuotes_pattern:
  "pattern nestedQuotes
     = Cat (One (Lit squote))
         (Cat (Many (NotCls [squote]))
            (Cat (One (Lit squote)) (Cat (Many (NotCls [squote])) (One (Lit squote)))))"
  by (simp add: nestedQuotes_def)

lemma rests_nested:
  "rests False (pattern nestedQuotes) s \<noteq> []
     \<longleftrightarrow> (\<exists>t. s = squote # t \<and> 2 \<le> count_list t squote)"
proof (cases s)
  case Nil
  then show ?thesis by (simp add: nestedQuotes_def)
next
  case (Cons c t)
  show ?thesis
  proof (cases "c = squote")
    case False
    with Cons show ?thesis by (simp only: nestedQuotes_pattern rests_quote_first) simp
  next
    case True
    have r: "rests False (pattern nestedQuotes) (squote # t)
        = (case dropWhile (\<lambda>c. c \<noteq> squote) t of [] \<Rightarrow> []
           | x # u \<Rightarrow> (case dropWhile (\<lambda>c. c \<noteq> squote) u of [] \<Rightarrow> [] | y # v \<Rightarrow> [v]))"
      by (simp only: nestedQuotes_pattern rests_quote_first rests_skip_to_quote
          rests_skip_to_last_quote) simp
    have "(rests False (pattern nestedQuotes) (squote # t) \<noteq> []) \<longleftrightarrow> 2 \<le> count_list t squote"
    proof (cases "dropWhile (\<lambda>c. c \<noteq> squote) t")
      case Nil
      from dropWhile_quote_none [OF Nil] show ?thesis unfolding r by (simp add: Nil)
    next
      case (Cons x u)
      note tu = this
      note ct = dropWhile_quote_some [OF tu]
      show ?thesis
      proof (cases "dropWhile (\<lambda>c. c \<noteq> squote) u")
        case Nil
        from dropWhile_quote_none [OF Nil] ct show ?thesis unfolding r by (simp add: tu Nil)
      next
        case (Cons y v)
        from dropWhile_quote_some [OF Cons] ct show ?thesis unfolding r by (simp add: tu Cons)
      qed
    qed
    then show ?thesis using Cons True by simp
  qed
qed

lemma nested_is_three_quotes:
  "regexTest False (pattern nestedQuotes) s \<longleftrightarrow> 3 \<le> count_list s squote"
proof (induction s)
  case Nil
  show ?case using rests_nested [of "[]"] by simp
next
  case (Cons c s)
  have "regexTest False (pattern nestedQuotes) (c # s)
      \<longleftrightarrow> (c = squote \<and> 2 \<le> count_list s squote) \<or> 3 \<le> count_list s squote"
    using rests_nested [of "c # s"] Cons.IH by simp
  then show ?case by auto
qed

text \<open>
  C3: every command with an odd number of single quotes is denied with the
  unbalanced-quotes reason, whatever else it contains, since the count is checked before
  any pattern rule; every command with an even number of single quotes that matches the
  nested-quotes pattern is denied with the nested-quotes reason; that pattern matches
  exactly the commands with at least three single quotes. The two reasons mention
  "unbalanced" and "nested quotes".
\<close>

theorem C3_quote_checks:
  "(odd (count_list c squote) \<longrightarrow> validateCommand c = deny unbalancedReason)
   \<and> (even (count_list d squote) \<and> regexTest False (pattern nestedQuotes) d
        \<longrightarrow> validateCommand d = deny (cy_reason nestedQuotes))
   \<and> regexTest False (pattern nestedQuotes) d = (3 \<le> count_list d squote)
   \<and> includesStr unbalancedReason ''unbalanced''
   \<and> includesStr (cy_reason nestedQuotes) ''nested quotes''"
proof (intro conjI impI)
  assume "odd (count_list c squote)"
  then show "validateCommand c = deny unbalancedReason" by (rule validate_odd)
next
  assume "even (count_list d squote) \<and> regexTest False (pattern nestedQuotes) d"
  then show "validateCommand d = deny (cy_reason nestedQuotes)"
    using validate_nested [of d] by simp
next
  show "regexTest False (pattern nestedQuotes) d = (3 \<le> count_list d squote)"
    by (rule nested_is_three_quotes)
next
  show "includesStr unbalancedReason ''unbalanced''" by (rule reason_unbalanced)
next
  show "includesStr (cy_reason nestedQuotes) ''nested quotes''" by (rule reason_nested)
qed

theorem C3_quote_checks_witness:
  "odd (count_list oddQuoteCommand squote)
   \<and> regexTest False (pattern shellExpansion) oddQuoteCommand
   \<and> (regexTest True (detect gitAllNoLimit) oddQuoteCommand
        \<and> \<not> regexTest True (unless gitAllNoLimit) oddQuoteCommand)
   \<and> validateCommand oddQuoteCommand = deny unbalancedReason
   \<and> even (count_list nestedQuoteCommand squote)
   \<and> regexTest False (pattern nestedQuotes) nestedQuoteCommand
   \<and> validateCommand nestedQuoteCommand = deny (cy_reason nestedQuotes)"
proof -
  note t = C3_quote_checks [of oddQuoteCommand nestedQuoteCommand]
  from t oddQuote_odd have 1: "validateCommand oddQuoteCommand = deny unbalancedReason"
    by (elim conjE) (erule mp)
  from t nestedQuote_even nestedQuote_nested
  have 2: "validateCommand nestedQuoteCommand = deny (cy_reason nestedQuotes)"
    by (elim conjE) (erule mp, rule conjI)
  from 1 2 oddQuote_odd oddQuote_shell oddQuote_git nestedQuote_even nestedQuote_nested
  show ?thesis by simp
qed


text \<open>
  C4: a hang-pattern rule whose \<^verbatim>\<open>detect\<close> pattern matches a command and whose
  \<^verbatim>\<open>unless\<close> pattern does not, makes the validator deny that command; for a command
  that reaches the hang-pattern rules the result is the denial of the first rule in the
  list with \<^verbatim>\<open>detect\<close> matching and \<^verbatim>\<open>unless\<close> not matching, and the command is
  allowed when there is none, so a denial there always comes from such a rule.
  \<^verbatim>\<open>git log --all\<close> is denied and \<^verbatim>\<open>git log --all -n 50\<close> is allowed.
\<close>

theorem C4_hang_rules:
  "(\<forall>rule\<in>set safetyRules.
       regexTest True (detect rule) c \<and> \<not> regexTest True (unless rule) c
         \<longrightarrow> \<not> allowed (validateCommand c))
   \<and> (reachesSafetyRules c \<longrightarrow>
         validateCommand c =
           (case find (\<lambda>rule. regexTest True (detect rule) c
                                \<and> \<not> regexTest True (unless rule) c) safetyRules of
              Some rule \<Rightarrow> deny (sf_reason rule)
            | None \<Rightarrow> allow))
   \<and> (reachesSafetyRules c \<and> \<not> allowed (validateCommand c) \<longrightarrow>
         (\<exists>rule\<in>set safetyRules.
             regexTest True (detect rule) c \<and> \<not> regexTest True (unless rule) c
             \<and> reason (validateCommand c) = Some (sf_reason rule)))
   \<and> validateCommand ''git log --all'' = deny (sf_reason gitAllNoLimit)
   \<and> validateCommand ''git log --all -n 50'' = allow"
proof (intro conjI ballI impI)
  fix rule
  assume "rule \<in> set safetyRules"
    and "regexTest True (detect rule) c \<and> \<not> regexTest True (unless rule) c"
  then show "\<not> allowed (validateCommand c)" by (simp add: validate_fires)
next
  assume "reachesSafetyRules c"
  then show "validateCommand c =
      (case find (\<lambda>rule. regexTest True (detect rule) c
                           \<and> \<not> regexTest True (unless rule) c) safetyRules of
         Some rule \<Rightarrow> deny (sf_reason rule)
       | None \<Rightarrow> allow)"
    by (rule validate_reaches)
next
  assume "reachesSafetyRules c \<and> \<not> allowed (validateCommand c)"
  then show "\<exists>rule\<in>set safetyRules.
      regexTest True (detect rule) c \<and> \<not> regexTest True (unless rule) c
      \<and> reason (validateCommand c) = Some (sf_reason rule)"
    by (simp add: validate_denied_by_rule)
next
  show "validateCommand ''git log --all'' = deny (sf_reason gitAllNoLimit)"
    by (rule git_log_all_denied)
next
  show "validateCommand ''git log --all -n 50'' = allow"
    by (rule git_log_all_limit_allowed)
qed

theorem C4_hang_rules_witness:
  "gitAllNoLimit \<in> set safetyRules
   \<and> (regexTest True (detect gitAllNoLimit) ''git log --all''
        \<and> \<not> regexTest True (unless gitAllNoLimit) ''git log --all'')
   \<and> reachesSafetyRules ''git log --all''
   \<and> \<not> allowed (validateCommand ''git log --all'')
   \<and> validateCommand ''git log --all'' = deny (sf_reason gitAllNoLimit)
   \<and> validateCommand ''git log --all -n 50'' = allow"
proof -
  have m: "gitAllNoLimit \<in> set safetyRules" by (simp add: safetyRules_def)
  note t = C4_hang_rules [of "''git log --all''"]
  from t have b: "\<forall>rule\<in>set safetyRules.
       regexTest True (detect rule) ''git log --all''
       \<and> \<not> regexTest True (unless rule) ''git log --all''
         \<longrightarrow> \<not> allowed (validateCommand ''git log --all'')"
    by (rule conjunct1)
  from bspec [OF b m] git_log_all_fires
  have 1: "\<not> allowed (validateCommand ''git log --all'')" by (rule mp)
  from t have 2: "validateCommand ''git log --all'' = deny (sf_reason gitAllNoLimit)"
    by (elim conjE)
  from t have 3: "validateCommand ''git log --all -n 50'' = allow"
    by (elim conjE)
  from m git_log_all_fires git_log_all_reaches 1 2 3 show ?thesis by simp
qed

section \<open>Lifecycle Hook Layer\<close>

text \<open>
  What a termination primitive hands back: \<^verbatim>\<open>undefined\<close> or a boolean. A call either
  returns such a value (\<open>Inr\<close>) or throws an error object (\<open>Inl\<close>). The original
  primitives and the outcome of \<^verbatim>\<open>execSync('taskkill /T /F /PID ...')\<close> (\<open>True\<close> when
  it returns, \<open>False\<close> when it throws) are parameters; the second component of a hook's
  result lists the process identities \<^verbatim>\<open>taskkill\<close> was run on.
\<close>

datatype ret_value = RetUndefined | RetBool bool

record child_process =
  cp_id :: nat
  cp_pid :: "int option"

definition processKillHook ::
  "(int \<Rightarrow> string option \<Rightarrow> js_error + ret_value) \<Rightarrow> (int \<Rightarrow> bool) \<Rightarrow> int \<Rightarrow> string option
     \<Rightarrow> (js_error + ret_value) \<times> int list"
where
  "processKillHook originalProcessKill taskkill pid signal =
     (case originalProcessKill pid signal of
        Inr v \<Rightarrow> (Inr v, [])
      | Inl err \<Rightarrow>
          if err_code err = Some ''EPERM'' then
            (if taskkill pid then (Inr RetUndefined, [pid]) else (Inr RetUndefined, [pid]))
          else if err_code err = Some ''ESRCH'' then (Inr RetUndefined, [])
          else (Inl err, []))"

definition childProcessKillHook ::
  "(child_process \<Rightarrow> string option \<Rightarrow> js_error + ret_value) \<Rightarrow> (int \<Rightarrow> bool) \<Rightarrow> child_process
     \<Rightarrow> string option \<Rightarrow> (js_error + ret_value) \<times> int list"
where
  "childProcessKillHook originalChildProcessKill taskkill this signal =
     (case originalChildProcessKill this signal of
        Inr v \<Rightarrow> (Inr v, [])
      | Inl err \<Rightarrow>
          if err_code err = Some ''EPERM'' \<or> err_code err = Some ''ESRCH'' then
            (Inr RetUndefined,
             case cp_pid this of
               None \<Rightarrow> []
             | Some pid \<Rightarrow> if pid \<noteq> 0 then (if taskkill pid then [pid] else [pid]) else [])
          else (Inl err, []))"

text \<open>
  Node.js: \<^verbatim>\<open>process.kill(pid, signal)\<close> and \<^verbatim>\<open>subprocess.kill(signal)\<close> return
  \<^verbatim>\<open>true\<close> when the signal was delivered.
\<close>

definition nodeKillSuccess :: ret_value where
  "nodeKillSuccess = RetBool True"

definition errorWithCode :: "string \<Rightarrow> js_error" where
  "errorWithCode c = \<lparr> err_code = Some c, err_message = Some ''kill '' \<rparr>"

lemma processKillHook_success:
  "originalProcessKill pid signal = Inr v \<Longrightarrow>
   processKillHook originalProcessKill taskkill pid signal = (Inr v, [])"
  by (simp add: processKillHook_def)

lemma processKillHook_EPERM:
  "originalProcessKill pid signal = Inl err \<Longrightarrow> err_code err = Some ''EPERM'' \<Longrightarrow>
   processKillHook originalProcessKill taskkill pid signal = (Inr RetUndefined, [pid])"
  by (simp add: processKillHook_def)

lemma processKillHook_ESRCH:
  "originalProcessKill pid signal = Inl err \<Longrightarrow> err_code err = Some ''ESRCH'' \<Longrightarrow>
   processKillHook originalProcessKill taskkill pid signal = (Inr RetUndefined, [])"
  by (simp add: processKillHook_def)

lemma processKillHook_other:
  "originalProcessKill pid signal = Inl err \<Longrightarrow> err_code err \<noteq> Some ''EPERM'' \<Longrightarrow>
   err_code err \<noteq> Some ''ESRCH'' \<Longrightarrow>
   processKillHook originalProcessKill taskkill pid signal = (Inl err, [])"
  by (simp add: processKillHook_def)

lemma childProcessKillHook_success:
  "originalChildProcessKill this signal = Inr v \<Longrightarrow>
   childProcessKillHook originalChildProcessKill taskkill this signal = (Inr v, [])"
  by (simp add: childProcessKillHook_def)

lemma childProcessKillHook_recovered:
  "originalChildProcessKill this signal = Inl err \<Longrightarrow>
   err_code err = Some ''EPERM'' \<or> err_code err = Some ''ESRCH'' \<Longrightarrow>
   childProcessKillHook originalChildProcessKill taskkill this signal
     = (Inr RetUndefined,
        case cp_pid this of None \<Rightarrow> [] | Some pid \<Rightarrow> if pid \<noteq> 0 then [pid] else [])"
  by (auto simp: childProcessKillHook_def split: option.splits)

lemma childProcessKillHook_other:
  "originalChildProcessKill this signal = Inl err \<Longrightarrow> err_code err \<noteq> Some ''EPERM'' \<Longrightarrow>
   err_code err \<noteq> Some ''ESRCH'' \<Longrightarrow>
   childProcessKillHook originalChildProcessKill taskkill this signal = (Inl err, [])"
  by (simp add: childProcessKillHook_def)

text \<open>
  C5 (the code differs): both hooks pass the original's return value through on success,
  which for Node's primitives is \<^verbatim>\<open>true\<close>, and return \<^verbatim>\<open>undefined\<close> whenever they
  recover from \<^verbatim>\<open>EPERM\<close> or \<^verbatim>\<open>ESRCH\<close>; the recovered return value is therefore not
  the success-case return value.
\<close>

theorem C5_recovered_return_value:
  "processKillHook (\<lambda>pid signal. Inr nodeKillSuccess) (\<lambda>pid. True) 4242 None
     = (Inr (RetBool True), [])
   \<and> processKillHook (\<lambda>pid signal. Inl (errorWithCode ''EPERM'')) (\<lambda>pid. True) 4242 None
     = (Inr RetUndefined, [4242])
   \<and> processKillHook (\<lambda>pid signal. Inl (errorWithCode ''EPERM'')) (\<lambda>pid. False) 4242 None
     = (Inr RetUndefined, [4242])
   \<and> processKillHook (\<lambda>pid signal. Inl (errorWithCode ''ESRCH'')) (\<lambda>pid. True) 4242 None
     = (Inr RetUndefined, [])
   \<and> childProcessKillHook (\<lambda>this signal. Inr nodeKillSuccess) (\<lambda>pid. True)
        \<lparr>cp_id = 0, cp_pid = Some 4242\<rparr> None
     = (Inr (RetBool True), [])
   \<and> childProcessKillHook (\<lambda>this signal. Inl (errorWithCode ''EPERM'')) (\<lambda>pid. True)
        \<lparr>cp_id = 0, cp_pid = Some 4242\<rparr> None
     = (Inr RetUndefined, [4242])
   \<and> RetUndefined \<noteq> nodeKillSuccess"
  by (simp add: processKillHook_def childProcessKillHook_def nodeKillSuccess_def
      errorWithCode_def)

section \<open>JSON values and the runtime\<close>

text \<open>
  A parsed JSON value, as \<^verbatim>\<open>JSON.parse\<close> builds it: the members of an object are in
  property order with distinct keys. \<^verbatim>\<open>undefined\<close> is \<open>None\<close> of a \<open>json option\<close>.
  \<^verbatim>\<open>JSON.parse\<close>, \<^verbatim>\<open>JSON.stringify\<close> (plain, and with indent 2), \<^verbatim>\<open>path.basename\<close>
  on strings and the UTF-8 conversions of a Buffer belong to the runtime and are
  parameters of the model.
\<close>

datatype json =
    JNull
  | JBool bool
  | JNum rat
  | JStr string
  | JArr "json list"
  | JObj "(string \<times> json) list"

datatype js_exception = SyntaxError | TypeError

record runtime =
  JSON_parse :: "string \<Rightarrow> json option"
  JSON_stringify :: "json \<Rightarrow> string"
  JSON_stringify_indent2 :: "json \<Rightarrow> string"
  path_basename :: "string \<Rightarrow> string"
  utf8_decode :: "string \<Rightarrow> string"
  utf8_encode :: "string \<Rightarrow> string"

fun truthy :: "json \<Rightarrow> bool" where
  "truthy JNull = False"
| "truthy (JBool b) = b"
| "truthy (JNum n) = (n \<noteq> 0)"
| "truthy (JStr s) = (s \<noteq> [])"
| "truthy (JArr xs) = True"
| "truthy (JObj kvs) = True"

definition truthyOpt :: "json option \<Rightarrow> bool" where
  "truthyOpt v = (case v of None \<Rightarrow> False | Some x \<Rightarrow> truthy x)"

text \<open>
  \<^verbatim>\<open>value.key\<close> for a key that is no index, not \<^verbatim>\<open>length\<close> and no name of a built-in
  prototype: reading it from \<^verbatim>\<open>null\<close> throws, from any other value that is not an
  object with that member it gives \<^verbatim>\<open>undefined\<close>.
\<close>

fun getProp :: "json \<Rightarrow> string \<Rightarrow> js_exception + json option" where
  "getProp JNull k = Inl TypeError"
| "getProp (JObj kvs) k = Inr (map_of kvs k)"
| "getProp v k = Inr None"

text \<open>\<^verbatim>\<open>value?.key\<close>, where \<^verbatim>\<open>value\<close> may be \<^verbatim>\<open>undefined\<close>.\<close>

definition optChain :: "json option \<Rightarrow> string \<Rightarrow> json option" where
  "optChain v k =
     (case v of
        None \<Rightarrow> None
      | Some JNull \<Rightarrow> None
      | Some x \<Rightarrow> (case getProp x k of Inl e \<Rightarrow> None | Inr r \<Rightarrow> r))"




section \<open>Permission Hook Handler\<close>

record notification =
  title :: string
  message :: string

definition excludedTools :: "string list" where
  "excludedTools = [''AskUserQuestion'', ''ExitPlanMode'']"

definition allowDecision :: json where
  "allowDecision =
     JObj [(''hookSpecificOutput'',
            JObj [(''hookEventName'', JStr ''PermissionRequest''),
                  (''decision'', JObj [(''behavior'', JStr ''allow'')])])]"

text \<open>\<^verbatim>\<open>excludedTools.includes(toolName)\<close>: only a string is equal to a string.\<close>

definition isExcluded :: "json option \<Rightarrow> bool" where
  "isExcluded toolName = (case toolName of Some (JStr t) \<Rightarrow> t \<in> set excludedTools | _ \<Rightarrow> False)"

definition toolMessage :: "json option \<Rightarrow> string" where
  "toolMessage toolName =
     (if toolName = Some (JStr ''AskUserQuestion'') then ''Claude is asking a question''
      else if toolName = Some (JStr ''ExitPlanMode'') then ''Plan ready for review''
      else (case toolName of Some (JStr t) \<Rightarrow> t | _ \<Rightarrow> []) @ '' needs approval'')"

text \<open>
  \<^verbatim>\<open>request.cwd ? path.basename(request.cwd) : 'Unknown'\<close>; \<^verbatim>\<open>path.basename\<close> throws a
  \<^verbatim>\<open>TypeError\<close> when its argument is not a string.
\<close>

definition projectFolderOf :: "runtime \<Rightarrow> json option \<Rightarrow> js_exception + string" where
  "projectFolderOf rt cwd =
     (if truthyOpt cwd
      then (case cwd of Some (JStr c) \<Rightarrow> Inr (path_basename rt c) | _ \<Rightarrow> Inl TypeError)
      else Inr ''Unknown'')"

text \<open>The body of the \<^verbatim>\<open>try\<close> after the parse; the notifications it sends are listed.\<close>

definition handleParsed :: "runtime \<Rightarrow> json \<Rightarrow> js_exception + string \<times> notification list" where
  "handleParsed rt request =
     (case getProp request ''tool_name'' of
        Inl e \<Rightarrow> Inl e
      | Inr toolName \<Rightarrow>
          if isExcluded toolName then
            (case getProp request ''cwd'' of
               Inl e \<Rightarrow> Inl e
             | Inr cwd \<Rightarrow>
                 (case projectFolderOf rt cwd of
                    Inl e \<Rightarrow> Inl e
                  | Inr projectFolder \<Rightarrow>
                      Inr ([], [\<lparr> title = projectFolder @ '' - Input Required'',
                                  message = toolMessage toolName \<rparr>])))
          else Inr (JSON_stringify rt allowDecision, []))"

definition handlePermissionRequest :: "runtime \<Rightarrow> string \<Rightarrow> string \<times> notification list" where
  "handlePermissionRequest rt jsonInput =
     (case JSON_parse rt jsonInput of
        None \<Rightarrow> (JSON_stringify rt allowDecision, [])
      | Some request \<Rightarrow>
          (case handleParsed rt request of
             Inl e \<Rightarrow> (JSON_stringify rt allowDecision, [])
           | Inr r \<Rightarrow> r))"


section \<open>Settings file-read hook\<close>


definition hookEntry :: json where
  \<open>hookEntry =
     JArr [JObj [(''hooks'',
                  JArr [JObj [(''type'', JStr ''command''),
                              (''command'', JStr ''node -e "__RUNNER_PERMISSION_HOOK__"'')]])]]\<close>






section \<open>Permission Hook Handler: results\<close>

text \<open>The tool category of a parsed request is in the exclusion set.\<close>

definition categoryExcluded :: "json \<Rightarrow> bool" where
  "categoryExcluded request =
     (case getProp request ''tool_name'' of Inl e \<Rightarrow> False | Inr toolName \<Rightarrow> isExcluded toolName)"

text \<open>The working-directory hint is absent, falsy or a string.\<close>

definition cwdUsable :: "json \<Rightarrow> bool" where
  "cwdUsable request =
     (case getProp request ''cwd'' of
        Inl e \<Rightarrow> False
      | Inr cwd \<Rightarrow> (if truthyOpt cwd then (case cwd of Some (JStr c) \<Rightarrow> True | _ \<Rightarrow> False) else True))"

text \<open>A runtime on a handful of texts, for the concrete runs below.\<close>

definition askInput :: string where
  \<open>askInput = ''{"tool_name":"AskUserQuestion","cwd":"/home/u/MyApp"}''\<close>

definition askNumericCwdInput :: string where
  \<open>askNumericCwdInput = ''{"tool_name":"AskUserQuestion","cwd":5}''\<close>

definition bashInput :: string where
  \<open>bashInput = ''{"tool_name":"Bash","tool_input":{"command":"ls"}}''\<close>

definition allowText :: string where
  \<open>allowText = ''{"hookSpecificOutput":{"hookEventName":"PermissionRequest","decision":{"behavior":"allow"}}}''\<close>

definition hooksTrueText :: string where
  \<open>hooksTrueText = ''{"model":"opus","hooks":true}''\<close>

definition plainSettingsText :: string where
  \<open>plainSettingsText = ''{"model":"opus","hooks":{"Stop":[]}}''\<close>

definition plainSettings :: json where
  "plainSettings = JObj [(''model'', JStr ''opus''), (''hooks'', JObj [(''Stop'', JArr [])])]"

definition injectedSettings :: json where
  "injectedSettings =
     JObj [(''model'', JStr ''opus''),
           (''hooks'', JObj [(''Stop'', JArr []), (''PermissionRequest'', hookEntry)])]"

definition newline :: char where
  "newline = CHR 0x0A"

definition injectedSettingsText :: string where
  \<open>injectedSettingsText =
     ''{'' @ [newline] @
     ''  "model": "opus",'' @ [newline] @
     ''  "hooks": {'' @ [newline] @
     ''    "Stop": [],'' @ [newline] @
     ''    "PermissionRequest": ['' @ [newline] @
     ''      {'' @ [newline] @
     ''        "hooks": ['' @ [newline] @
     ''          {'' @ [newline] @
     ''            "type": "command",'' @ [newline] @
     ''            "command": "node -e '' @ [backslash, dquote] @ ''__RUNNER_PERMISSION_HOOK__''
       @ [backslash, dquote] @ ''"'' @ [newline] @
     ''          }'' @ [newline] @
     ''        ]'' @ [newline] @
     ''      }'' @ [newline] @
     ''    ]'' @ [newline] @
     ''  }'' @ [newline] @
     ''}''\<close>

definition askRequest :: json where
  "askRequest = JObj [(''tool_name'', JStr ''AskUserQuestion''), (''cwd'', JStr ''/home/u/MyApp'')]"

definition askNumericCwdRequest :: json where
  "askNumericCwdRequest = JObj [(''tool_name'', JStr ''AskUserQuestion''), (''cwd'', JNum 5)]"

definition bashRequest :: json where
  "bashRequest = JObj [(''tool_name'', JStr ''Bash''), (''tool_input'', JObj [(''command'', JStr ''ls'')])]"

definition hooksTrueSettings :: json where
  "hooksTrueSettings = JObj [(''model'', JStr ''opus''), (''hooks'', JBool True)]"

definition objectHookText :: string where
  \<open>objectHookText = ''{"hooks":{"PermissionRequest":{"matcher":"Bash"}}}''\<close>

definition objectHookSettings :: json where
  "objectHookSettings =
     JObj [(''hooks'', JObj [(''PermissionRequest'', JObj [(''matcher'', JStr ''Bash'')])])]"

definition objectHookInjected :: json where
  "objectHookInjected = JObj [(''hooks'', JObj [(''PermissionRequest'', hookEntry)])]"

definition objectHookInjectedText :: string where
  \<open>objectHookInjectedText =
     ''{'' @ [newline] @
     ''  "hooks": {'' @ [newline] @
     ''    "PermissionRequest": ['' @ [newline] @
     ''      {'' @ [newline] @
     ''        "hooks": ['' @ [newline] @
     ''          {'' @ [newline] @
     ''            "type": "command",'' @ [newline] @
     ''            "command": "node -e '' @ [backslash, dquote] @ ''__RUNNER_PERMISSION_HOOK__''
       @ [backslash, dquote] @ ''"'' @ [newline] @
     ''          }'' @ [newline] @
     ''        ]'' @ [newline] @
     ''      }'' @ [newline] @
     ''    ]'' @ [newline] @
     ''  }'' @ [newline] @
     ''}''\<close>

definition sampleParse :: "(string \<times> json) list" where
  "sampleParse =
     [(askInput, askRequest),
      (askNumericCwdInput, askNumericCwdRequest),
      (bashInput, bashRequest),
      (hooksTrueText, hooksTrueSettings),
      (plainSettingsText, plainSettings),
      (objectHookText, objectHookSettings),
      (injectedSettingsText, injectedSettings),
      (objectHookInjectedText, objectHookInjected)]"

definition sampleStringify2 :: "(json \<times> string) list" where
  "sampleStringify2 =
     [(injectedSettings, injectedSettingsText), (objectHookInjected, objectHookInjectedText)]"


definition sampleRuntime :: runtime where
  "sampleRuntime =
     \<lparr> JSON_parse = map_of sampleParse,
       JSON_stringify = (\<lambda>v. if v = allowDecision then allowText else []),
       JSON_stringify_indent2 = (\<lambda>v. case map_of sampleStringify2 v of Some t \<Rightarrow> t | None \<Rightarrow> []),
       path_basename = (\<lambda>p. if p = ''/home/u/MyApp'' then ''MyApp'' else p),
       utf8_decode = (\<lambda>b. b),
       utf8_encode = (\<lambda>s. s) \<rparr>"

lemma handle_parse_failure:
  "JSON_parse rt jsonInput = None \<Longrightarrow>
   handlePermissionRequest rt jsonInput = (JSON_stringify rt allowDecision, [])"
  by (simp add: handlePermissionRequest_def)

lemma handle_other_category:
  assumes "JSON_parse rt jsonInput = Some request" and "\<not> categoryExcluded request"
  shows "handlePermissionRequest rt jsonInput = (JSON_stringify rt allowDecision, [])"
  using assms
  by (auto simp: handlePermissionRequest_def handleParsed_def categoryExcluded_def
      split: sum.splits)

lemma handle_excluded:
  assumes "JSON_parse rt jsonInput = Some request" and "categoryExcluded request"
    and "cwdUsable request"
  shows "\<exists>n. handlePermissionRequest rt jsonInput = ([], [n])
             \<and> message n = toolMessage (optChain (Some request) ''tool_name'')"
proof -
  from assms(2) obtain toolName where t: "getProp request ''tool_name'' = Inr toolName"
    "isExcluded toolName"
    by (auto simp: categoryExcluded_def split: sum.splits)
  from assms(3) obtain cwd where c: "getProp request ''cwd'' = Inr cwd"
    "\<not> truthyOpt cwd \<or> (\<exists>s. cwd = Some (JStr s))"
    by (auto simp: cwdUsable_def split: sum.splits if_splits option.splits json.splits)
  have "\<exists>folder. projectFolderOf rt cwd = Inr folder"
  proof (cases "truthyOpt cwd")
    case True
    with c(2) show ?thesis by (auto simp: projectFolderOf_def)
  next
    case False
    then show ?thesis by (simp add: projectFolderOf_def)
  qed
  then obtain folder where f: "projectFolderOf rt cwd = Inr folder" ..
  from t(1) have "request \<noteq> JNull" by auto
  with t(1) have o: "optChain (Some request) ''tool_name'' = toolName"
    by (cases request) (simp_all add: optChain_def)
  from assms(1) t c(1) f o show ?thesis
    by (simp add: handlePermissionRequest_def handleParsed_def)
qed

lemma allowDecision_no_ok: "getProp allowDecision ''ok'' = Inr None"
  by (simp add: allowDecision_def)

text \<open>
  C7 (the code differs): a request for the excluded category \<^verbatim>\<open>AskUserQuestion\<close> whose
  \<^verbatim>\<open>cwd\<close> is the number 5 makes \<^verbatim>\<open>path.basename\<close> throw inside the \<^verbatim>\<open>try\<close>, with no
  guard of its own; the handler returns the allow-decision payload, not the empty
  string, and sends no notification.
\<close>

theorem C7_excluded_tool_approved:
  "JSON_parse sampleRuntime askNumericCwdInput = Some askNumericCwdRequest
   \<and> categoryExcluded askNumericCwdRequest
   \<and> handlePermissionRequest sampleRuntime askNumericCwdInput = (allowText, [])
   \<and> allowText \<noteq> []"
  by code_simp

lemma ask_facts:
  "JSON_parse sampleRuntime askInput = Some askRequest"
  "categoryExcluded askRequest"
  "cwdUsable askRequest"
  by code_simp+

lemma bash_facts:
  "JSON_parse sampleRuntime bashInput = Some bashRequest"
  "\<not> categoryExcluded bashRequest"
  by code_simp+

lemma invalid_fact: "JSON_parse sampleRuntime ''invalid json'' = None"
  by code_simp

lemma sample_allow: "JSON_stringify sampleRuntime allowDecision = allowText"
  by (simp add: sampleRuntime_def)

lemma ask_run:
  "handlePermissionRequest sampleRuntime askInput
     = ([], [\<lparr> title = ''MyApp - Input Required'', message = ''Claude is asking a question'' \<rparr>])"
  by code_simp

text \<open>
  What the handler does otherwise: for a request whose parsed tool category is in the
  exclusion set and whose \<^verbatim>\<open>cwd\<close> is absent, falsy or a string, it returns the empty
  string and sends exactly one notification; for a request that parses with any other
  category, and for an input on which parsing fails, it returns the serialised allow
  decision and sends no notification; the allow decision has no \<^verbatim>\<open>ok\<close> member.
\<close>

lemma permission_handler_behaviour:
  "(JSON_parse rt input1 = Some request1 \<and> categoryExcluded request1 \<and> cwdUsable request1
      \<longrightarrow> fst (handlePermissionRequest rt input1) = []
          \<and> length (snd (handlePermissionRequest rt input1)) = 1)
   \<and> (JSON_parse rt input2 = Some request2 \<and> \<not> categoryExcluded request2
      \<longrightarrow> handlePermissionRequest rt input2 = (JSON_stringify rt allowDecision, []))
   \<and> (JSON_parse rt input3 = None
      \<longrightarrow> handlePermissionRequest rt input3 = (JSON_stringify rt allowDecision, []))
   \<and> getProp allowDecision ''ok'' = Inr None"
proof (intro conjI impI)
  assume "JSON_parse rt input1 = Some request1 \<and> categoryExcluded request1 \<and> cwdUsable request1"
  then obtain n where "handlePermissionRequest rt input1 = ([], [n])"
    using handle_excluded [of rt input1 request1] by blast
  then show "fst (handlePermissionRequest rt input1) = []"
    and "length (snd (handlePermissionRequest rt input1)) = 1"
    by simp_all
next
  assume "JSON_parse rt input2 = Some request2 \<and> \<not> categoryExcluded request2"
  then show "handlePermissionRequest rt input2 = (JSON_stringify rt allowDecision, [])"
    by (simp add: handle_other_category)
next
  assume "JSON_parse rt input3 = None"
  then show "handlePermissionRequest rt input3 = (JSON_stringify rt allowDecision, [])"
    by (rule handle_parse_failure)
next
  show "getProp allowDecision ''ok'' = Inr None" by (rule allowDecision_no_ok)
qed

lemma permission_handler_behaviour_example:
  "(JSON_parse sampleRuntime askInput = Some askRequest \<and> categoryExcluded askRequest
      \<and> cwdUsable askRequest)
   \<and> handlePermissionRequest sampleRuntime askInput
        = ([], [\<lparr> title = ''MyApp - Input Required'', message = ''Claude is asking a question'' \<rparr>])
   \<and> (JSON_parse sampleRuntime bashInput = Some bashRequest \<and> \<not> categoryExcluded bashRequest)
   \<and> handlePermissionRequest sampleRuntime bashInput = (allowText, [])
   \<and> JSON_parse sampleRuntime ''invalid json'' = None
   \<and> handlePermissionRequest sampleRuntime ''invalid json'' = (allowText, [])"
proof -
  note t = permission_handler_behaviour [of sampleRuntime askInput askRequest bashInput bashRequest
      "''invalid json''"]
  from t bash_facts have 1: "handlePermissionRequest sampleRuntime bashInput = (allowText, [])"
    by (simp add: sample_allow)
  from t invalid_fact
  have 2: "handlePermissionRequest sampleRuntime ''invalid json'' = (allowText, [])"
    by (simp add: sample_allow)
  from 1 2 ask_facts bash_facts invalid_fact ask_run show ?thesis by simp
qed


section \<open>Settings file-read hook: results\<close>
















section \<open>Synthetic subprocesses and the event loop\<close>

text \<open>
  One thread of control: \<^verbatim>\<open>emit\<close> calls the listeners registered at that moment, in
  registration order, and \<^verbatim>\<open>process.nextTick\<close> queues a callback that runs once the
  current synchronous code has finished. A world records the listeners, the queued
  callbacks, every emission and every call of a listener. Listeners are observers named
  by a number.
\<close>

datatype emitter = ChildEmitter nat | StdoutEmitter nat | StderrEmitter nat

datatype payload = NoArgs | BufferArg string | StringArg string | CodeArg nat

record emission =
  source :: emitter
  eventName :: string
  argument :: payload

datatype task = BlockedTask nat string

record world =
  nextChild :: nat
  listeners :: "(emitter \<times> string \<times> nat) list"
  tickQueue :: "task list"
  emitted :: "emission list"
  delivered :: "(nat \<times> emission) list"

record synthetic_child =
  sc_number :: nat
  sc_pid :: int
  sc_killed :: bool

definition emitterChild :: "emitter \<Rightarrow> nat" where
  "emitterChild e = (case e of ChildEmitter n \<Rightarrow> n | StdoutEmitter n \<Rightarrow> n | StderrEmitter n \<Rightarrow> n)"

definition on :: "emitter \<Rightarrow> string \<Rightarrow> nat \<Rightarrow> world \<Rightarrow> world" where
  "on src name listener w = w\<lparr> listeners := listeners w @ [(src, name, listener)] \<rparr>"

definition listensTo :: "emitter \<Rightarrow> string \<Rightarrow> emitter \<times> string \<times> nat \<Rightarrow> bool" where
  "listensTo src name reg = (fst reg = src \<and> fst (snd reg) = name)"

definition emit :: "emitter \<Rightarrow> string \<Rightarrow> payload \<Rightarrow> world \<Rightarrow> world" where
  "emit src name a w =
     (let e = \<lparr> source = src, eventName = name, argument = a \<rparr>
      in w\<lparr> emitted := emitted w @ [e],
            delivered := delivered w
              @ map (\<lambda>reg. (snd (snd reg), e)) (filter (listensTo src name) (listeners w)) \<rparr>)"

definition createBlockedChildProcess :: "string \<Rightarrow> world \<Rightarrow> synthetic_child \<times> world" where
  "createBlockedChildProcess blockReason w =
     (\<lparr> sc_number = nextChild w, sc_pid = 0, sc_killed = False \<rparr>,
      w\<lparr> nextChild := Suc (nextChild w),
         tickQueue := tickQueue w @ [BlockedTask (nextChild w) blockReason] \<rparr>)"

definition blockedMessage :: "string \<Rightarrow> string" where
  "blockedMessage blockReason = ''[blocked] '' @ blockReason @ [CHR 0x0A]"

fun runTask :: "task \<Rightarrow> world \<Rightarrow> world" where
  "runTask (BlockedTask c blockReason) w =
     emit (ChildEmitter c) ''close'' (CodeArg 1)
       (emit (StderrEmitter c) ''close'' NoArgs
          (emit (StdoutEmitter c) ''close'' NoArgs
             (emit (StderrEmitter c) ''data'' (BufferArg (blockedMessage blockReason)) w)))"

text \<open>The next turn: the queued callbacks run in order; none of them queues another.\<close>

definition processTicks :: "world \<Rightarrow> world" where
  "processTicks w = fold runTask (tickQueue w) (w\<lparr> tickQueue := [] \<rparr>)"

definition emptyWorld :: world where
  "emptyWorld = \<lparr> nextChild = 0, listeners = [], tickQueue = [], emitted = [], delivered = [] \<rparr>"

text \<open>No listener is registered yet on an emitter of a child still to be created.\<close>

definition freshEmitters :: "world \<Rightarrow> bool" where
  "freshEmitters w = list_all (\<lambda>reg. emitterChild (fst reg) < nextChild w) (listeners w)"

lemma startsWith_append: "startsWith (r @ b) r"
  by (induction r) simp_all

lemma includesStr_startsWith: "startsWith s p \<Longrightarrow> includesStr s p"
  by (cases s) (auto elim: startsWith.elims)

lemma includesStr_prefix: "includesStr (r @ b) r"
  by (rule includesStr_startsWith) (rule startsWith_append)

lemma includesStr_middle: "includesStr (a @ r @ b) r"
proof (induction a)
  case Nil
  show ?case by (simp add: includesStr_prefix)
next
  case (Cons c a)
  then show ?case by simp
qed

lemma blockedMessage_reason: "includesStr (blockedMessage blockReason) blockReason"
  unfolding blockedMessage_def by (rule includesStr_middle)

lemma fresh_no_listener:
  assumes "freshEmitters w" and "emitterChild src = nextChild w"
  shows "filter (listensTo src name) (listeners w) = []"
  using assms by (auto simp: freshEmitters_def list_all_iff filter_empty_conv listensTo_def)


text \<open>
  C8: creating a blocked synthetic subprocess emits nothing and calls no listener. When
  the caller then attaches, in the same turn, a data listener to the child's error
  channel and a close listener to the child, the next turn emits exactly the data event
  on the error channel, the two channel closes and the child's close with status 1, in
  that order; the data listener is called once, with a payload that contains the denial
  reason, before the close listener is called with status 1.
\<close>

theorem C8_blocked_child:
  assumes "tickQueue w = []" and "freshEmitters w"
  shows "sc_number (fst (createBlockedChildProcess blockReason w)) = nextChild w
    \<and> sc_pid (fst (createBlockedChildProcess blockReason w)) = 0
    \<and> emitted (snd (createBlockedChildProcess blockReason w)) = emitted w
    \<and> delivered (snd (createBlockedChildProcess blockReason w)) = delivered w
    \<and> emitted (processTicks
          (on (ChildEmitter (nextChild w)) ''close'' l2
             (on (StderrEmitter (nextChild w)) ''data'' l1
                (snd (createBlockedChildProcess blockReason w)))))
        = emitted w @
          [\<lparr> source = StderrEmitter (nextChild w), eventName = ''data'',
              argument = BufferArg (blockedMessage blockReason) \<rparr>,
           \<lparr> source = StdoutEmitter (nextChild w), eventName = ''close'', argument = NoArgs \<rparr>,
           \<lparr> source = StderrEmitter (nextChild w), eventName = ''close'', argument = NoArgs \<rparr>,
           \<lparr> source = ChildEmitter (nextChild w), eventName = ''close'', argument = CodeArg 1 \<rparr>]
    \<and> delivered (processTicks
          (on (ChildEmitter (nextChild w)) ''close'' l2
             (on (StderrEmitter (nextChild w)) ''data'' l1
                (snd (createBlockedChildProcess blockReason w)))))
        = delivered w @
          [(l1, \<lparr> source = StderrEmitter (nextChild w), eventName = ''data'',
                   argument = BufferArg (blockedMessage blockReason) \<rparr>),
           (l2, \<lparr> source = ChildEmitter (nextChild w), eventName = ''close'',
                   argument = CodeArg 1 \<rparr>)]
    \<and> includesStr (blockedMessage blockReason) blockReason"
proof -
  have f: "filter (listensTo src name) (listeners w) = []"
    if "emitterChild src = nextChild w" for src name
    using assms(2) that by (rule fresh_no_listener)
  have e: "emitterChild (StderrEmitter (nextChild w)) = nextChild w"
    "emitterChild (StdoutEmitter (nextChild w)) = nextChild w"
    "emitterChild (ChildEmitter (nextChild w)) = nextChild w"
    by (simp_all add: emitterChild_def)
  show ?thesis
    using assms(1) blockedMessage_reason [of blockReason]
    by (simp add: processTicks_def emit_def on_def createBlockedChildProcess_def Let_def
        f [OF e(1)] f [OF e(2)] f [OF e(3)] listensTo_def)
qed

theorem C8_blocked_child_witness:
  "tickQueue emptyWorld = [] \<and> freshEmitters emptyWorld
   \<and> emitted (snd (createBlockedChildProcess ''denied'' emptyWorld)) = []
   \<and> delivered (snd (createBlockedChildProcess ''denied'' emptyWorld)) = []
   \<and> delivered (processTicks
         (on (ChildEmitter 0) ''close'' 2
            (on (StderrEmitter 0) ''data'' 1
               (snd (createBlockedChildProcess ''denied'' emptyWorld)))))
       = [(1, \<lparr> source = StderrEmitter 0, eventName = ''data'',
                 argument = BufferArg (''[blocked] denied'' @ [CHR 0x0A]) \<rparr>),
          (2, \<lparr> source = ChildEmitter 0, eventName = ''close'', argument = CodeArg 1 \<rparr>)]"
proof -
  have a: "tickQueue emptyWorld = []" "freshEmitters emptyWorld"
    by (simp_all add: emptyWorld_def freshEmitters_def)
  have n: "nextChild emptyWorld = 0" "emitted emptyWorld = []" "delivered emptyWorld = []"
    by (simp_all add: emptyWorld_def)
  from C8_blocked_child [OF a, of "''denied''" 2 1] a show ?thesis
    by (simp add: n blockedMessage_def)
qed

section \<open>Subprocess interception and the Tracked Subprocess Set\<close>

definition permissionHookMarker :: string where
  "permissionHookMarker = ''__RUNNER_PERMISSION_HOOK__''"

text \<open>
  What \<^verbatim>\<open>spawnHook\<close> does before any real process is created: it returns a
  hook-handling synthetic child, or throws, or goes on to a real spawn of a command.
  \<^verbatim>\<open>gitBashPath\<close> is \<open>None\<close> when Git Bash was not found. For \<^verbatim>\<open>/bin/bash\<close> with
  \<^verbatim>\<open>-c\<close> and a non-empty command the hook evaluates \<^verbatim>\<open>validateBashCommand(args[1])\<close>.
  That identifier has no binding in \<^verbatim>\<open>runner.js\<close>: the validator is imported as
  \<^verbatim>\<open>validateCommand\<close> and the other name only appears in an \<^verbatim>\<open>export ... from\<close>, which
  binds nothing locally. So the call throws a \<^verbatim>\<open>ReferenceError\<close>, which the hook's
  \<^verbatim>\<open>catch\<close> logs and throws again; neither a blocked synthetic child nor a real child
  comes out of such a call.
\<close>

datatype spawn_decision = HookChild | ReferenceErrorThrown | RealSpawn string

definition spawnDecision :: "string \<Rightarrow> string list \<Rightarrow> string option \<Rightarrow> spawn_decision" where
  "spawnDecision command args gitBashPath =
     (if includesStr command permissionHookMarker then HookChild
      else if command = ''node'' \<and> list_ex (\<lambda>a. includesStr a permissionHookMarker) args
      then HookChild
      else
        (case gitBashPath of
           Some bash \<Rightarrow>
             if command = ''/bin/bash'' then
               (case args of
                  a0 # a1 # rest \<Rightarrow>
                    if a0 = ''-c'' \<and> a1 \<noteq> [] then ReferenceErrorThrown else RealSpawn bash
                | _ \<Rightarrow> RealSpawn bash)
             else RealSpawn command
         | None \<Rightarrow> RealSpawn command))"

text \<open>
  The bookkeeping around \<^verbatim>\<open>childProcesses\<close>: the Set in insertion order, the number of
  child objects created so far (a child's \<open>cp_id\<close> is its identity), the children that
  have emitted \<^verbatim>\<open>exit\<close> or \<^verbatim>\<open>error\<close>, the process identities \<^verbatim>\<open>taskkill\<close> was run on,
  and whether \<^verbatim>\<open>process.exit(0)\<close> has been scheduled.
\<close>

record tracker =
  childProcesses :: "child_process list"
  created :: nat
  notified :: "nat set"
  taskkilled :: "int list"
  exitScheduled :: bool

definition initialTracker :: tracker where
  "initialTracker = \<lparr> childProcesses = [], created = 0, notified = {}, taskkilled = [],
     exitScheduled = False \<rparr>"

datatype signal = SIGINT | SIGTERM | SIGHUP | SIGBREAK

text \<open>
  What can happen to the bookkeeping: a call of the spawn hook (with what the original
  \<^verbatim>\<open>spawn\<close> does if it is reached: it throws, or returns a child with this \<^verbatim>\<open>pid\<close>), a
  child emitting \<^verbatim>\<open>exit\<close> or \<^verbatim>\<open>error\<close>, a signal, a restart by the Supervisor.
\<close>

datatype operation =
    Spawn string "string list" "js_error + int option"
  | ChildExit nat
  | ChildError nat
  | Signal signal
  | SupervisorRestart

definition truthyPid :: "int option \<Rightarrow> bool" where
  "truthyPid p = (case p of None \<Rightarrow> False | Some n \<Rightarrow> n \<noteq> 0)"

definition setAdd :: "child_process \<Rightarrow> child_process list \<Rightarrow> child_process list" where
  "setAdd child cs = (if child \<in> set cs then cs else cs @ [child])"

text \<open>
  The bookkeeping of one call of the spawn hook. When the hook throws (the
  \<^verbatim>\<open>ReferenceError\<close> above, or the original \<^verbatim>\<open>spawn\<close> throwing) and when it returns a
  synthetic child, nothing is tracked.
\<close>

definition spawnHook ::
  "string option \<Rightarrow> string \<Rightarrow> string list \<Rightarrow> js_error + int option \<Rightarrow> tracker \<Rightarrow> tracker"
where
  "spawnHook gitBashPath command args original t =
     (case spawnDecision command args gitBashPath of
        HookChild \<Rightarrow> t
      | ReferenceErrorThrown \<Rightarrow> t
      | RealSpawn cmd \<Rightarrow>
          (case original of
             Inl e \<Rightarrow> t
           | Inr pid \<Rightarrow>
               (let child = \<lparr> cp_id = created t, cp_pid = pid \<rparr>;
                    t1 = t\<lparr> created := Suc (created t) \<rparr>
                in if truthyPid pid
                   then t1\<lparr> childProcesses := setAdd child (childProcesses t1) \<rparr>
                   else t1)))"

text \<open>The \<^verbatim>\<open>exit\<close> and \<^verbatim>\<open>error\<close> listeners: \<^verbatim>\<open>childProcesses.delete(child)\<close>.\<close>

definition childGone :: "nat \<Rightarrow> tracker \<Rightarrow> tracker" where
  "childGone n t =
     (if n < created t
      then t\<lparr> childProcesses := filter (\<lambda>c. cp_id c \<noteq> n) (childProcesses t),
              notified := insert n (notified t) \<rparr>
      else t)"

definition killChildren :: "tracker \<Rightarrow> tracker" where
  "killChildren t =
     (if length (childProcesses t) = 0 then t
      else t\<lparr> taskkilled := taskkilled t
                  @ List.map_filter (\<lambda>child. if truthyPid (cp_pid child) then cp_pid child else None)
                      (childProcesses t),
              childProcesses := [] \<rparr>)"

definition cleanupAndExit :: "tracker \<Rightarrow> tracker" where
  "cleanupAndExit t = (killChildren t)\<lparr> exitScheduled := True \<rparr>"

definition onSignal :: "bool \<Rightarrow> signal \<Rightarrow> tracker \<Rightarrow> tracker" where
  "onSignal win32 sig t =
     (case sig of
        SIGINT \<Rightarrow> cleanupAndExit t
      | SIGTERM \<Rightarrow> cleanupAndExit t
      | SIGHUP \<Rightarrow> if win32 then cleanupAndExit t else t
      | SIGBREAK \<Rightarrow> if win32 then killChildren t else t)"

fun applyOp :: "bool \<Rightarrow> string option \<Rightarrow> operation \<Rightarrow> tracker \<Rightarrow> tracker" where
  "applyOp win32 bash (Spawn command args original) t = spawnHook bash command args original t"
| "applyOp win32 bash (ChildExit n) t = childGone n t"
| "applyOp win32 bash (ChildError n) t = childGone n t"
| "applyOp win32 bash (Signal sig) t = onSignal win32 sig t"
| "applyOp win32 bash SupervisorRestart t = t"

definition runOps :: "bool \<Rightarrow> string option \<Rightarrow> operation list \<Rightarrow> tracker \<Rightarrow> tracker" where
  "runOps win32 bash ops t = fold (applyOp win32 bash) ops t"

text \<open>Every tracked child was created with a process identity and has not yet emitted
  \<^verbatim>\<open>exit\<close> or \<^verbatim>\<open>error\<close>.\<close>

definition trackedAlive :: "tracker \<Rightarrow> bool" where
  "trackedAlive t =
     list_all (\<lambda>c. cp_id c < created t \<and> cp_id c \<notin> notified t \<and> truthyPid (cp_pid c))
       (childProcesses t)"

text \<open>Only children that exist have emitted anything.\<close>

definition notifiedKnown :: "tracker \<Rightarrow> bool" where
  "notifiedKnown t = (\<forall>n\<in>notified t. n < created t)"

definition consistent :: "tracker \<Rightarrow> bool" where
  "consistent t = (trackedAlive t \<and> notifiedKnown t)"

lemma consistent_initial: "consistent initialTracker"
  by (simp add: consistent_def trackedAlive_def notifiedKnown_def initialTracker_def)

lemma consistent_killChildren: "consistent t \<Longrightarrow> consistent (killChildren t)"
  by (simp add: consistent_def trackedAlive_def notifiedKnown_def killChildren_def)

lemma consistent_cleanupAndExit: "consistent t \<Longrightarrow> consistent (cleanupAndExit t)"
  using consistent_killChildren [of t]
  by (simp add: consistent_def trackedAlive_def notifiedKnown_def cleanupAndExit_def)

lemma consistent_spawnHook:
  "consistent t \<Longrightarrow> consistent (spawnHook bash command args original t)"
  by (fastforce simp: consistent_def trackedAlive_def notifiedKnown_def spawnHook_def setAdd_def
      Let_def list_all_iff split: spawn_decision.splits sum.splits)

lemma consistent_childGone: "consistent t \<Longrightarrow> consistent (childGone n t)"
  by (auto simp: consistent_def trackedAlive_def notifiedKnown_def childGone_def list_all_iff)

lemma consistent_applyOp: "consistent t \<Longrightarrow> consistent (applyOp win32 bash op t)"
proof (cases op)
  case (Signal sig)
  assume "consistent t"
  then show ?thesis
    unfolding Signal
    by (cases sig) (simp_all add: onSignal_def consistent_killChildren consistent_cleanupAndExit)
qed (simp_all add: consistent_spawnHook consistent_childGone)

lemma consistent_runOps: "consistent t \<Longrightarrow> consistent (runOps win32 bash ops t)"
  unfolding runOps_def
  by (induction ops arbitrary: t) (simp_all add: consistent_applyOp)

lemma removal_cause:
  assumes "c \<in> set (childProcesses t)" and "c \<notin> set (childProcesses (applyOp win32 bash op t))"
  shows "op = ChildExit (cp_id c) \<or> op = ChildError (cp_id c) \<or> (\<exists>sig. op = Signal sig)"
proof (cases op)
  case (Spawn command args original)
  with assms show ?thesis
    by (auto simp: spawnHook_def setAdd_def Let_def split: spawn_decision.splits sum.splits if_splits)
next
  case (ChildExit n)
  with assms show ?thesis by (auto simp: childGone_def split: if_splits)
next
  case (ChildError n)
  with assms show ?thesis by (auto simp: childGone_def split: if_splits)
next
  case (Signal sig)
  then show ?thesis by simp
next
  case SupervisorRestart
  with assms show ?thesis by simp
qed


lemma childGone_removes:
  assumes "consistent t" and "c \<in> set (childProcesses t)"
  shows "c \<notin> set (childProcesses (childGone (cp_id c) t))"
proof -
  from assms have "cp_id c < created t"
    by (auto simp: consistent_def trackedAlive_def list_all_iff)
  then show ?thesis by (simp add: childGone_def)
qed

text \<open>The process identities \<^verbatim>\<open>killChildren\<close> runs \<^verbatim>\<open>taskkill\<close> on.\<close>

definition trackedPids :: "tracker \<Rightarrow> int list" where
  "trackedPids t =
     List.map_filter (\<lambda>child. if truthyPid (cp_pid child) then cp_pid child else None)
       (childProcesses t)"

lemma killChildren_clears:
  "childProcesses (killChildren t) = []
   \<and> taskkilled (killChildren t) = taskkilled t @ trackedPids t"
  by (simp add: killChildren_def trackedPids_def map_filter_simps)

lemma signal_clears:
  assumes "win32 \<or> sig = SIGINT \<or> sig = SIGTERM"
  shows "childProcesses (onSignal win32 sig t) = []
         \<and> taskkilled (onSignal win32 sig t) = taskkilled t @ trackedPids t"
  using assms killChildren_clears [of t]
  by (cases sig) (auto simp: onSignal_def cleanupAndExit_def)

lemma bash_c_throws:
  "a1 \<noteq> [] \<Longrightarrow>
   spawnHook (Some bash) ''/bin/bash'' (''-c'' # a1 # rest) original t = t"
  by (simp add: spawnHook_def spawnDecision_def permissionHookMarker_def)

definition twoSpawns :: "operation list" where
  "twoSpawns = [Spawn ''cmd.exe'' [''/c'', ''dir''] (Inr (Some 4242)),
                Spawn ''git'' [''status''] (Inr (Some 4243))]"

definition firstChild :: child_process where
  "firstChild = \<lparr> cp_id = 0, cp_pid = Some 4242 \<rparr>"

definition secondChild :: child_process where
  "secondChild = \<lparr> cp_id = 1, cp_pid = Some 4243 \<rparr>"

text \<open>
  C9, as stated, fails: after two real spawns both children are tracked; the break
  signal runs \<^verbatim>\<open>killChildren\<close>, which runs \<^verbatim>\<open>taskkill\<close> on both and then clears the
  set, so both entries are gone although neither child has emitted \<^verbatim>\<open>exit\<close> or
  \<^verbatim>\<open>error\<close>.
\<close>

theorem C9_cleared_by_signal:
  "childProcesses (runOps True None twoSpawns initialTracker) = [firstChild, secondChild]
   \<and> childProcesses (runOps True None (twoSpawns @ [Signal SIGBREAK]) initialTracker) = []
   \<and> notified (runOps True None (twoSpawns @ [Signal SIGBREAK]) initialTracker) = {}
   \<and> taskkilled (runOps True None (twoSpawns @ [Signal SIGBREAK]) initialTracker) = [4242, 4243]"
  by code_simp

text \<open>
  C9 (amended): an entry of the Tracked Subprocess Set is removed by that subprocess's
  own \<^verbatim>\<open>exit\<close> or \<^verbatim>\<open>error\<close> notification, or together with all other entries by a
  signal handler, and by no other operation: neither a spawn nor a Supervisor restart
  removes one. A handled signal (\<^verbatim>\<open>SIGINT\<close> and \<^verbatim>\<open>SIGTERM\<close>, and on win32 also
  \<^verbatim>\<open>SIGHUP\<close> and \<^verbatim>\<open>SIGBREAK\<close>) runs \<^verbatim>\<open>taskkill\<close> on every tracked process identity
  and leaves the set empty. After any sequence of operations every tracked subprocess
  was created with a process identity and has not yet emitted \<^verbatim>\<open>exit\<close> or \<^verbatim>\<open>error\<close>.
\<close>

theorem C9_tracked_set:
  "trackedAlive (runOps win32 bash ops initialTracker)
   \<and> (c \<in> set (childProcesses t) \<and> c \<notin> set (childProcesses (applyOp win32 bash op t))
        \<longrightarrow> op = ChildExit (cp_id c) \<or> op = ChildError (cp_id c) \<or> (\<exists>sig. op = Signal sig))
   \<and> (consistent t \<and> c \<in> set (childProcesses t)
        \<longrightarrow> c \<notin> set (childProcesses (applyOp win32 bash (ChildExit (cp_id c)) t))
          \<and> c \<notin> set (childProcesses (applyOp win32 bash (ChildError (cp_id c)) t)))
   \<and> (win32 \<or> s = SIGINT \<or> s = SIGTERM
        \<longrightarrow> childProcesses (applyOp win32 bash (Signal s) t) = []
          \<and> taskkilled (applyOp win32 bash (Signal s) t) = taskkilled t @ trackedPids t)"
proof (intro conjI impI)
  have "consistent (runOps win32 bash ops initialTracker)"
    by (rule consistent_runOps) (rule consistent_initial)
  then show "trackedAlive (runOps win32 bash ops initialTracker)"
    by (simp add: consistent_def)
next
  assume "c \<in> set (childProcesses t) \<and> c \<notin> set (childProcesses (applyOp win32 bash op t))"
  then show "op = ChildExit (cp_id c) \<or> op = ChildError (cp_id c) \<or> (\<exists>sig. op = Signal sig)"
    using removal_cause [of c t win32 bash op] by simp
next
  assume a: "consistent t \<and> c \<in> set (childProcesses t)"
  then show "c \<notin> set (childProcesses (applyOp win32 bash (ChildExit (cp_id c)) t))"
    using childGone_removes [of t c] by simp
  from a show "c \<notin> set (childProcesses (applyOp win32 bash (ChildError (cp_id c)) t))"
    using childGone_removes [of t c] by simp
next
  assume h: "win32 \<or> s = SIGINT \<or> s = SIGTERM"
  from signal_clears [OF h, of t]
  show "childProcesses (applyOp win32 bash (Signal s) t) = []"
    and "taskkilled (applyOp win32 bash (Signal s) t) = taskkilled t @ trackedPids t"
    by simp_all
qed

lemma twoSpawns_facts:
  "firstChild \<in> set (childProcesses (runOps True None twoSpawns initialTracker))"
  "childProcesses (applyOp True None (ChildExit 0) (runOps True None twoSpawns initialTracker))
     = [secondChild]"
  "cp_id firstChild = 0"
  "taskkilled (runOps True None twoSpawns initialTracker) = []"
  "trackedPids (runOps True None twoSpawns initialTracker) = [4242, 4243]"
  by code_simp+

theorem C9_tracked_set_witness:
  "consistent (runOps True None twoSpawns initialTracker)
   \<and> firstChild \<in> set (childProcesses (runOps True None twoSpawns initialTracker))
   \<and> firstChild \<notin> set (childProcesses
         (applyOp True None (ChildExit (cp_id firstChild)) (runOps True None twoSpawns initialTracker)))
   \<and> childProcesses (applyOp True None (ChildExit 0) (runOps True None twoSpawns initialTracker))
       = [secondChild]
   \<and> trackedAlive (runOps True None (twoSpawns @ [ChildExit 0]) initialTracker)
   \<and> childProcesses (applyOp True None (Signal SIGBREAK)
         (runOps True None twoSpawns initialTracker)) = []
   \<and> taskkilled (applyOp True None (Signal SIGBREAK)
         (runOps True None twoSpawns initialTracker)) = [4242, 4243]"
proof -
  let ?t = "runOps True None twoSpawns initialTracker"
  have c: "consistent ?t" by (rule consistent_runOps) (rule consistent_initial)
  note t = C9_tracked_set [of True None "twoSpawns @ [ChildExit 0]" firstChild ?t "ChildExit 0"
      SIGBREAK]
  from t c twoSpawns_facts(1)
  have "firstChild \<notin> set (childProcesses (applyOp True None (ChildExit (cp_id firstChild)) ?t))"
    by simp
  moreover from t have "trackedAlive (runOps True None (twoSpawns @ [ChildExit 0]) initialTracker)"
    by simp
  moreover from t have "childProcesses (applyOp True None (Signal SIGBREAK) ?t) = []"
    by simp
  moreover from t twoSpawns_facts(4,5)
  have "taskkilled (applyOp True None (Signal SIGBREAK) ?t) = [4242, 4243]"
    by simp
  ultimately show ?thesis using c twoSpawns_facts(1,2,3) by simp
qed

end
